theory Spec2Isabelle
  imports Complex_Main
begin

section \<open>JavaScript values shared by the models\<close>

text \<open>
  What a \<^verbatim>\<open>throw\<close> or a rejected promise carries: an \<^verbatim>\<open>Error\<close> object with its
  message, or any other value (\<^verbatim>\<open>error instanceof Error\<close> is false for it).
\<close>

datatype thrown = Error_obj string | Non_error

text \<open>
  \<^verbatim>\<open>!s\<close> for an environment variable or a stored item: true when it is
  \<^verbatim>\<open>undefined\<close>/\<^verbatim>\<open>null\<close> (\<open>None\<close>) or the empty string.
\<close>

definition falsy_string :: "string option \<Rightarrow> bool" where
  "falsy_string s = (case s of None \<Rightarrow> True | Some t \<Rightarrow> t = [])"

text \<open>
  \<^verbatim>\<open>String(n)\<close> and template interpolation of an integer-valued number: the decimal
  digits, with a minus sign for a negative number.
\<close>

definition digit_char :: "nat \<Rightarrow> char" where
  "digit_char d = ''0123456789'' ! d"

fun String_of_nat :: "nat \<Rightarrow> string" where
  "String_of_nat n =
     (if n < 10 then [digit_char n]
      else String_of_nat (n div 10) @ [digit_char (n mod 10)])"

declare String_of_nat.simps [simp del]

definition String_of_int :: "int \<Rightarrow> string" where
  "String_of_int i = (if i < 0 then CHR ''-'' # String_of_nat (nat (- i)) else String_of_nat (nat i))"

text \<open>\<^verbatim>\<open>s.includes(needle)\<close>: the needle occurs in \<open>s\<close> as a contiguous run.\<close>

fun starts_with :: "string \<Rightarrow> string \<Rightarrow> bool" where
  "starts_with s [] = True"
| "starts_with [] (n # ns) = False"
| "starts_with (c # cs) (n # ns) = (c = n \<and> starts_with cs ns)"

fun str_includes :: "string \<Rightarrow> string \<Rightarrow> bool" where
  "str_includes [] needle = (needle = [])"
| "str_includes (c # cs) needle = (starts_with (c # cs) needle \<or> str_includes cs needle)"

text \<open>
  White space as \<^verbatim>\<open>parseInt\<close> skips it and as \<^verbatim>\<open>\s\<close> matches it, among the characters
  below 256: tab, line feed, vertical tab, form feed, carriage return, space and the
  no-break space.
\<close>

definition js_whitespace :: "char \<Rightarrow> bool" where
  "js_whitespace c \<longleftrightarrow>
     c \<in> set [CHR 0x09, CHR 0x0A, CHR 0x0B, CHR 0x0C, CHR 0x0D, CHR 0x20, CHR 0xA0]"

text \<open>
  \<^verbatim>\<open>parseInt(text, 10)\<close>: leading white space is skipped, a sign is read, then the
  longest run of decimal digits; with no digit the result is \<^verbatim>\<open>NaN\<close>, here \<open>None\<close>.
  (The result is the exact integer: the rounding of integers that a double cannot hold is
  left out.)
\<close>

definition is_digit :: "char \<Rightarrow> bool" where
  "is_digit c \<longleftrightarrow> c \<in> set ''0123456789''"

fun index_of :: "'a \<Rightarrow> 'a list \<Rightarrow> nat" where
  "index_of c [] = 0"
| "index_of c (x # xs) = (if c = x then 0 else Suc (index_of c xs))"

definition digit_val :: "char \<Rightarrow> nat" where
  "digit_val c = index_of c ''0123456789''"

definition digits_value :: "string \<Rightarrow> nat" where
  "digits_value ds = foldl (\<lambda>acc c. 10 * acc + digit_val c) 0 ds"

definition parseInt :: "string \<Rightarrow> int option" where
  "parseInt text =
     (let trimmed = dropWhile js_whitespace text;
          negative = (case trimmed of c # _ \<Rightarrow> c = CHR ''-'' | [] \<Rightarrow> False);
          unsigned = (case trimmed of
                        c # rest \<Rightarrow> if c = CHR ''-'' \<or> c = CHR ''+'' then rest else trimmed
                      | [] \<Rightarrow> []);
          ds = takeWhile is_digit unsigned
      in if ds = [] then None
         else Some (if negative then - int (digits_value ds) else int (digits_value ds)))"

text \<open>
  A value produced by \<^verbatim>\<open>response.json()\<close> or \<^verbatim>\<open>JSON.parse\<close>. An object is the list of its
  members in the order of the text; a number is read only for its truthiness here.
  A JavaScript value that may also be \<^verbatim>\<open>undefined\<close> is a \<open>json option\<close>, with \<open>None\<close>
  for \<^verbatim>\<open>undefined\<close>.
\<close>

datatype json =
    JNull
  | JBool bool
  | JNumber real
  | JString string
  | JArray "json list"
  | JObject "(string \<times> json) list"

text \<open>Truthiness, as \<^verbatim>\<open>if (v)\<close> and \<^verbatim>\<open>v || w\<close> test it.\<close>

fun truthy :: "json option \<Rightarrow> bool" where
  "truthy None = False"
| "truthy (Some JNull) = False"
| "truthy (Some (JBool b)) = b"
| "truthy (Some (JNumber n)) = (n \<noteq> 0)"
| "truthy (Some (JString s)) = (s \<noteq> [])"
| "truthy (Some (JArray _)) = True"
| "truthy (Some (JObject _)) = True"

text \<open>
  The property read \<^verbatim>\<open>v.key\<close> for one of the keys the code reads (none of them is a
  property of a string, a number, a boolean or an array). Reading a property of
  \<^verbatim>\<open>null\<close> throws a \<^verbatim>\<open>TypeError\<close>, whose message is the engine's (here in the wording
  of Hermes). In an object with a repeated key the last member counts.
\<close>

definition null_read_message :: "string \<Rightarrow> string" where
  "null_read_message key =
     ''Cannot read property '' @ [CHR 0x27] @ key @ [CHR 0x27] @ '' of null''"

fun get_property :: "json \<Rightarrow> string \<Rightarrow> thrown + json option" where
  "get_property JNull key = Inl (Error_obj (null_read_message key))"
| "get_property (JObject members) key = Inr (map_of (rev members) key)"
| "get_property _ key = Inr None"

section \<open>Content API client (services/quranApi.ts)\<close>

text \<open>
  The interface \<^verbatim>\<open>QueryResult\<close>. Its field \<^verbatim>\<open>data\<close> is written \<open>query_data\<close> (another
  record of this theory has a field \<open>data\<close>). \<^verbatim>\<open>data\<close>, \<^verbatim>\<open>count\<close> and \<^verbatim>\<open>error\<close> hold
  whatever JavaScript value the code stores: \<open>Some JNull\<close> is \<^verbatim>\<open>null\<close>, \<open>None\<close> is a
  property that is absent or \<^verbatim>\<open>undefined\<close>.
\<close>

record QueryResult =
  success :: bool
  query_data :: "json option"
  count :: "json option"
  error :: "json option"

text \<open>
  An element of \<^verbatim>\<open>params\<close>, declared \<^verbatim>\<open>unknown\<close>: a value that \<^verbatim>\<open>JSON.stringify\<close> writes as
  the JSON value given, or a value on which \<^verbatim>\<open>JSON.stringify\<close> throws (a \<^verbatim>\<open>BigInt\<close>, an
  object with a cycle, an object whose \<^verbatim>\<open>toJSON\<close> method throws) with what it throws.
\<close>

datatype query_param = Serialisable json | Unserialisable thrown

text \<open>
  \<^verbatim>\<open>JSON.stringify\<close> on the array of parameters: the elements are written in order, and
  the first that throws ends the call.
\<close>

fun stringify_params :: "query_param list \<Rightarrow> thrown + json list" where
  "stringify_params [] = Inr []"
| "stringify_params (Serialisable j # rest) =
     (case stringify_params rest of Inl e \<Rightarrow> Inl e | Inr js \<Rightarrow> Inr (j # js))"
| "stringify_params (Unserialisable e # rest) = Inl e"

text \<open>
  The request that \<^verbatim>\<open>fetch\<close> is given: the URL and the body \<^verbatim>\<open>{ sql, params }\<close>. The
  network answers a request by rejecting, or by a response whose \<^verbatim>\<open>json()\<close> rejects or
  yields a value.
\<close>

record query_request =
  query_url :: string
  sql :: string
  params :: "json list"

type_synonym query_network = "query_request \<Rightarrow> thrown + (thrown + json)"

text \<open>
  The \<^verbatim>\<open>try\<close> block of \<^verbatim>\<open>executeQuranQuery\<close>: \<open>Inl\<close> is what it throws. The body of the
  request is serialised first, inside the block.
\<close>

definition executeQuranQuery_try ::
  "string \<Rightarrow> query_network \<Rightarrow> string \<Rightarrow> query_param list \<Rightarrow> thrown + QueryResult" where
  "executeQuranQuery_try base net sql_text params_list =
     (case stringify_params params_list of
        Inl e \<Rightarrow> Inl e
      | Inr body_params \<Rightarrow>
          (case net \<lparr>query_url = base @ ''/api/quran/query'', sql = sql_text,
                      params = body_params\<rparr> of
             Inl e \<Rightarrow> Inl e
           | Inr response \<Rightarrow>
               (case response of
                  Inl e \<Rightarrow> Inl e
                | Inr body \<Rightarrow>
                    (case get_property body ''success'' of
                       Inl e \<Rightarrow> Inl e
                     | Inr reported \<Rightarrow>
                         if truthy reported
                         then
                           (case get_property body ''data'' of
                              Inl e \<Rightarrow> Inl e
                            | Inr d \<Rightarrow>
                                (case get_property body ''count'' of
                                   Inl e \<Rightarrow> Inl e
                                 | Inr c \<Rightarrow>
                                     Inr \<lparr>success = True, query_data = d, count = c, error = None\<rparr>))
                         else
                           (case get_property body ''message'' of
                              Inl e \<Rightarrow> Inl e
                            | Inr m \<Rightarrow>
                                Inr \<lparr>success = False,
                                     query_data = Some JNull,
                                     count = Some (JNumber 0),
                                     error = (if truthy m then m else Some (JString ''Query failed''))\<rparr>)))))"

text \<open>
  \<^verbatim>\<open>executeQuranQuery(sql, params)\<close>, with the module constant \<^verbatim>\<open>API_BASE_URL\<close> and the
  network as arguments: the guard on the base URL, then the \<^verbatim>\<open>try\<close> block with its
  \<^verbatim>\<open>catch\<close>. The result is \<open>Inl\<close> of what the function throws or \<open>Inr\<close> of what it
  returns.
\<close>

definition executeQuranQuery ::
  "string option \<Rightarrow> query_network \<Rightarrow> string \<Rightarrow> query_param list \<Rightarrow> thrown + QueryResult" where
  "executeQuranQuery API_BASE_URL net sql_text params_list =
     (case API_BASE_URL of
        None \<Rightarrow>
          Inr \<lparr>success = False, query_data = Some JNull, count = Some (JNumber 0),
               error = Some (JString ''Missing EXPO_PUBLIC_QURAN_API_BASE_URL'')\<rparr>
      | Some base \<Rightarrow>
          if base = []
          then Inr \<lparr>success = False, query_data = Some JNull, count = Some (JNumber 0),
                    error = Some (JString ''Missing EXPO_PUBLIC_QURAN_API_BASE_URL'')\<rparr>
          else
            (case executeQuranQuery_try base net sql_text params_list of
               Inr result \<Rightarrow> Inr result
             | Inl caught \<Rightarrow>
                 Inr \<lparr>success = False, query_data = Some JNull, count = Some (JNumber 0),
                      error = Some (JString (case caught of
                                               Error_obj message \<Rightarrow> message
                                             | Non_error \<Rightarrow> ''Network error''))\<rparr>))"

text \<open>
  Vocabulary for the statements. \<open>reported_body\<close> is the value that the response body
  parses to, when the base URL is set, the parameters are serialised and both \<^verbatim>\<open>fetch\<close>
  and \<^verbatim>\<open>json()\<close> resolve;
  \<open>body_success\<close> says that \<^verbatim>\<open>data.success\<close> is truthy. \<open>rejecting_network e\<close> is the
  network on which every \<^verbatim>\<open>fetch\<close> is rejected with \<open>e\<close>.
\<close>

definition reported_body ::
  "string option \<Rightarrow> query_network \<Rightarrow> string \<Rightarrow> query_param list \<Rightarrow> json option" where
  "reported_body API_BASE_URL net sql_text params_list =
     (case API_BASE_URL of
        None \<Rightarrow> None
      | Some base \<Rightarrow>
          if base = [] then None
          else (case stringify_params params_list of
                  Inl e \<Rightarrow> None
                | Inr body_params \<Rightarrow>
                    (case net \<lparr>query_url = base @ ''/api/quran/query'', sql = sql_text,
                                params = body_params\<rparr> of
                       Inr (Inr body) \<Rightarrow> Some body
                     | _ \<Rightarrow> None)))"

definition body_success :: "json \<Rightarrow> bool" where
  "body_success body =
     (case get_property body ''success'' of Inr v \<Rightarrow> truthy v | Inl _ \<Rightarrow> False)"


section \<open>Audio service: verse timings (services/quranAudioService.ts)\<close>

text \<open>
  The interface \<^verbatim>\<open>VerseTiming\<close>. Timestamps are JavaScript numbers holding
  milliseconds; they are only compared, so they are modelled as reals.
\<close>

record VerseTiming =
  verse_key :: string
  timestamp_from :: real
  timestamp_to :: real
  segments :: "real list list"

text \<open>
  \<^verbatim>\<open>findCurrentVerseTiming(currentTimeMs, verseTimings)\<close>: the \<^verbatim>\<open>for ... of\<close> loop
  returns at the first timing whose interval holds the time, and \<^verbatim>\<open>null\<close> (here
  \<open>None\<close>) when the loop runs to the end.
\<close>

fun findCurrentVerseTiming :: "real \<Rightarrow> VerseTiming list \<Rightarrow> VerseTiming option" where
  "findCurrentVerseTiming currentTimeMs [] = None"
| "findCurrentVerseTiming currentTimeMs (timing # rest) =
     (if currentTimeMs \<ge> timestamp_from timing \<and> currentTimeMs < timestamp_to timing
      then Some timing
      else findCurrentVerseTiming currentTimeMs rest)"

text \<open>
  The interfaces \<^verbatim>\<open>SurahAudioData\<close>, \<^verbatim>\<open>ApiAudioFile\<close> and \<^verbatim>\<open>ApiResponse\<close>. Optional
  fields are options; \<^verbatim>\<open>verse_timings || []\<close> and \<^verbatim>\<open>duration || 0\<close> read them.
\<close>

record SurahAudioData =
  audioUrl :: string
  verseTimings :: "VerseTiming list"
  duration :: real
  chapterId :: int

record ApiAudioFile =
  audio_url :: string
  verse_timings :: "VerseTiming list option"
  chapter_id :: int
  file_duration :: "real option"

record ApiResponse =
  audio_file :: "ApiAudioFile option"
  audio_files :: "ApiAudioFile list option"

text \<open>
  The network as the function sees it. A request is the URL with the \<^verbatim>\<open>apikey\<close> header;
  \<^verbatim>\<open>fetch\<close> rejects or resolves to a response, whose \<^verbatim>\<open>json()\<close> rejects or yields the
  body. Every request made is appended to a log, so that "no request" can be stated.
\<close>

record request =
  url :: string
  apikey :: string

record http_response =
  ok :: bool
  http_status :: int
  statusText :: string
  json_body :: "thrown + ApiResponse"

type_synonym network = "request \<Rightarrow> thrown + http_response"

text \<open>The module constants \<^verbatim>\<open>SUPABASE_URL\<close> and \<^verbatim>\<open>SUPABASE_ANON_KEY\<close>, read from the environment.\<close>

record supabase_env =
  SUPABASE_URL :: "string option"
  SUPABASE_ANON_KEY :: "string option"

definition MISHARY_ALAFASY :: int where
  "MISHARY_ALAFASY = 7"

text \<open>\<^verbatim>\<open>data.audio_files?.[0] || data.audio_file\<close>.\<close>

definition first_audio_file :: "ApiResponse \<Rightarrow> ApiAudioFile option" where
  "first_audio_file data =
     (case audio_files data of
        Some (f # _) \<Rightarrow> Some f
      | _ \<Rightarrow> audio_file data)"

text \<open>
  \<^verbatim>\<open>fetchSurahAudio(surahId, reciterId)\<close>. The result is \<open>Inl\<close> of what the function
  throws or \<open>Inr\<close> of what it returns, paired with the request log. The two guards come
  first, in the order of the source; only then is the URL built and \<^verbatim>\<open>fetch\<close> called.
  The surah number is an integer (a fractional number or \<^verbatim>\<open>NaN\<close> is not modelled); an
  absent \<^verbatim>\<open>reciterId\<close> takes the default.
\<close>

definition fetchSurahAudio ::
  "supabase_env \<Rightarrow> network \<Rightarrow> int \<Rightarrow> int option \<Rightarrow> request list
     \<Rightarrow> (thrown + SurahAudioData) \<times> request list" where
  "fetchSurahAudio env net surahId reciterId_arg reqs =
     (let reciterId = (case reciterId_arg of None \<Rightarrow> MISHARY_ALAFASY | Some r \<Rightarrow> r) in
      if falsy_string (SUPABASE_URL env) \<or> falsy_string (SUPABASE_ANON_KEY env)
      then (Inl (Error_obj ''Missing EXPO_PUBLIC_SUPABASE_URL or EXPO_PUBLIC_SUPABASE_PUBLISHABLE_KEY''), reqs)
      else if surahId < 1 \<or> surahId > 114
      then (Inl (Error_obj (''Invalid surah ID: '' @ String_of_int surahId @
                            ''. Must be between 1 and 114.'')), reqs)
      else
        case (SUPABASE_URL env, SUPABASE_ANON_KEY env) of
          (Some base, Some key) \<Rightarrow>
            (let req = \<lparr>url = base @ ''/functions/v1/quran-audio-proxy?reciterId='' @
                               String_of_int reciterId @ ''&chapter='' @ String_of_int surahId,
                        apikey = key\<rparr>;
                 reqs' = reqs @ [req]
             in case net req of
                  Inl e \<Rightarrow> (Inl e, reqs')
                | Inr response \<Rightarrow>
                    if \<not> ok response
                    then (Inl (Error_obj (''Failed to fetch audio data: '' @
                            String_of_int (http_status response) @ '' '' @ statusText response)), reqs')
                    else
                      (case json_body response of
                         Inl e \<Rightarrow> (Inl e, reqs')
                       | Inr data \<Rightarrow>
                           (case first_audio_file data of
                              None \<Rightarrow>
                                (Inl (Error_obj (''No audio file found for surah '' @
                                        String_of_int surahId)), reqs')
                            | Some audioFile \<Rightarrow>
                                (Inr \<lparr>audioUrl = audio_url audioFile,
                                      verseTimings =
                                        (case verse_timings audioFile of
                                           None \<Rightarrow> [] | Some ts \<Rightarrow> ts),
                                      duration =
                                        (case file_duration audioFile of
                                           None \<Rightarrow> 0 | Some d \<Rightarrow> d),
                                      chapterId = chapter_id audioFile\<rparr>, reqs'))))
        | _ \<Rightarrow> (Inl (Error_obj ''Missing EXPO_PUBLIC_SUPABASE_URL or EXPO_PUBLIC_SUPABASE_PUBLISHABLE_KEY''), reqs))"

section \<open>Audio playback state (contexts/QuranAudioContext.tsx)\<close>

datatype PlaybackState = Idle | Loading | Playing | Paused

text \<open>
  \<^verbatim>\<open>AVPlaybackStatus\<close> of expo-av: either not loaded, with no position, or loaded with
  the fields the handler reads.
\<close>

record loaded_status =
  positionMillis :: real
  durationMillis :: "real option"
  isPlaying :: bool
  didJustFinish :: bool

datatype AVPlaybackStatus = Not_loaded | Is_loaded loaded_status

text \<open>The calls made on the \<^verbatim>\<open>Audio.Sound\<close> object, in the order they are issued.\<close>

datatype sound_command = PauseAsync | PlayAsync | SetPositionAsync real

text \<open>The closure stored in \<^verbatim>\<open>pendingActionRef\<close>: the call it will repeat.\<close>

datatype pending_action = Pending_playVerse int int | Pending_playSurah int "int option"

text \<open>
  The provider's refs and state variables. \<open>sound_created\<close> says that
  \<^verbatim>\<open>soundRef.current\<close> is set; \<open>handler_verseTimings\<close> and \<open>handler_currentVerseKey\<close>
  are the values of \<^verbatim>\<open>verseTimings\<close> and \<^verbatim>\<open>currentVerseKey\<close> that the status handler
  captured when \<^verbatim>\<open>ensureSound\<close> created the sound. The state variables
  \<^verbatim>\<open>audioUrl\<close>, \<^verbatim>\<open>verseTimings\<close> and \<^verbatim>\<open>duration\<close> carry the prefix \<open>cur_\<close>, their
  names being fields of \<^verbatim>\<open>SurahAudioData\<close> already.
\<close>

record audio_state =
  sound_created :: bool
  sound_commands :: "sound_command list"
  handler_verseTimings :: "VerseTiming list"
  handler_currentVerseKey :: "string option"
  singleVerseEndTime :: "real option"
  pendingAction :: "pending_action option"
  cur_audioUrl :: "string option"
  cur_verseTimings :: "VerseTiming list"
  currentChapterId :: "int option"
  currentVerseKey :: "string option"
  playbackState :: PlaybackState
  currentTime :: real
  cur_duration :: real
  isSingleVerseMode :: bool
  pendingVerseNumber :: "int option"

text \<open>The initial values of the refs and of the \<^verbatim>\<open>useState\<close> calls.\<close>

definition initial_audio_state :: audio_state where
  "initial_audio_state =
     \<lparr>sound_created = False,
      sound_commands = [],
      handler_verseTimings = [],
      handler_currentVerseKey = None,
      singleVerseEndTime = None,
      pendingAction = None,
      cur_audioUrl = None,
      cur_verseTimings = [],
      currentChapterId = None,
      currentVerseKey = None,
      playbackState = Idle,
      currentTime = 0,
      cur_duration = 0,
      isSingleVerseMode = False,
      pendingVerseNumber = None\<rparr>"

text \<open>
  The callback given to \<^verbatim>\<open>sound.setOnPlaybackStatusUpdate\<close>. The state setters of
  one run are applied in order, so a later \<^verbatim>\<open>setPlaybackState\<close> wins.
\<close>

definition onPlaybackStatusUpdate :: "AVPlaybackStatus \<Rightarrow> audio_state \<Rightarrow> audio_state" where
  "onPlaybackStatusUpdate playback_status st =
     (case playback_status of
        Not_loaded \<Rightarrow> st
      | Is_loaded s \<Rightarrow>
          (let st1 = st\<lparr>currentTime := positionMillis s / 1000,
                        cur_duration := (case durationMillis s of None \<Rightarrow> 0 | Some d \<Rightarrow> d) / 1000\<rparr>;
               st2 = (if isPlaying s then st1\<lparr>playbackState := Playing\<rparr>
                      else if positionMillis s > 0 \<and> \<not> didJustFinish s
                      then st1\<lparr>playbackState := Paused\<rparr>
                      else st1);
               st3 = (case singleVerseEndTime st2 of
                        Some endTime \<Rightarrow>
                          if positionMillis s \<ge> endTime
                          then st2\<lparr>sound_commands := sound_commands st2 @ [PauseAsync],
                                   playbackState := Paused,
                                   isSingleVerseMode := False,
                                   singleVerseEndTime := None\<rparr>
                          else st2
                      | None \<Rightarrow> st2)
           in if isPlaying s \<and> length (handler_verseTimings st3) > 0
              then (case findCurrentVerseTiming (positionMillis s) (handler_verseTimings st3) of
                      Some timing \<Rightarrow>
                        if Some (verse_key timing) \<noteq> handler_currentVerseKey st3
                        then st3\<lparr>currentVerseKey := Some (verse_key timing)\<rparr>
                        else st3
                    | None \<Rightarrow> st3)
              else st3))"

text \<open>\<^verbatim>\<open>ensureSound\<close>: the sound and its handler are created once.\<close>

definition ensureSound :: "audio_state \<Rightarrow> audio_state" where
  "ensureSound st =
     (if sound_created st then st
      else st\<lparr>sound_created := True,
              handler_verseTimings := cur_verseTimings st,
              handler_currentVerseKey := currentVerseKey st\<rparr>)"

text \<open>\<^verbatim>\<open>getVerseTimingByNumber\<close>: the first timing whose key is \<^verbatim>\<open>surahId:verseNumber\<close>.\<close>

definition getVerseTimingByNumber :: "int \<Rightarrow> int \<Rightarrow> VerseTiming list \<Rightarrow> VerseTiming option" where
  "getVerseTimingByNumber surahId verseNumber timings =
     (let verseKey = String_of_int surahId @ '':'' @ String_of_int verseNumber
      in find (\<lambda>t. verse_key t = verseKey) timings)"

text \<open>\<^verbatim>\<open>clearVerseEndBoundary\<close>.\<close>

definition clearVerseEndBoundary :: "audio_state \<Rightarrow> audio_state" where
  "clearVerseEndBoundary st = st\<lparr>singleVerseEndTime := None\<rparr>"

text \<open>
  \<^verbatim>\<open>playVerse(surahId, verseNumber)\<close> awaits \<^verbatim>\<open>setPositionAsync\<close> and then \<^verbatim>\<open>playAsync\<close>,
  and status updates and other calls of the provider may run at each \<^verbatim>\<open>await\<close>. It is
  therefore given as the three stretches of code that run without interruption, each
  on the state as it is when the stretch starts.

  The first stretch ends where the function has handed over to \<^verbatim>\<open>loadSurahAudio\<close> (whose
  run is not part of this model), has returned for want of a timing, or awaits
  \<^verbatim>\<open>setPositionAsync\<close> with the timing found. The values of \<^verbatim>\<open>currentChapterId\<close>,
  \<^verbatim>\<open>audioUrl\<close> and \<^verbatim>\<open>verseTimings\<close> that the callback closes over are those of the state
  it is called in.
\<close>

datatype playVerse_step =
  Awaiting_load | Timing_missing | Awaiting_setPosition VerseTiming | Position_rejected | Awaiting_play

definition playVerse_until_setPosition ::
  "int \<Rightarrow> int \<Rightarrow> audio_state \<Rightarrow> playVerse_step \<times> audio_state" where
  "playVerse_until_setPosition surahId verseNumber st =
     (let st1 = (ensureSound st)\<lparr>pendingVerseNumber := Some verseNumber\<rparr> in
      if currentChapterId st1 \<noteq> Some surahId \<or> falsy_string (cur_audioUrl st1)
      then (Awaiting_load, st1\<lparr>pendingAction := Some (Pending_playVerse surahId verseNumber)\<rparr>)
      else
        case getVerseTimingByNumber surahId verseNumber (cur_verseTimings st1) of
          None \<Rightarrow> (Timing_missing, st1\<lparr>pendingVerseNumber := None\<rparr>)
        | Some timing \<Rightarrow>
            (let st2 = clearVerseEndBoundary st1
             in (Awaiting_setPosition timing,
                 st2\<lparr>sound_commands :=
                       sound_commands st2 @ [SetPositionAsync (timestamp_from timing)]\<rparr>)))"

text \<open>
  The second stretch runs when \<^verbatim>\<open>setPositionAsync\<close> has settled; \<open>position_ok\<close> says that it
  resolved. A rejection ends the call, the \<^verbatim>\<open>await\<close> standing outside the \<^verbatim>\<open>try\<close>.
  Otherwise the verse key, single-verse mode and the end boundary are set and
  \<^verbatim>\<open>playAsync\<close> is awaited.
\<close>

definition playVerse_after_setPosition ::
  "bool \<Rightarrow> VerseTiming \<Rightarrow> audio_state \<Rightarrow> playVerse_step \<times> audio_state" where
  "playVerse_after_setPosition position_ok timing st =
     (if \<not> position_ok then (Position_rejected, st)
      else (Awaiting_play,
            st\<lparr>currentVerseKey := Some (verse_key timing),
               isSingleVerseMode := True,
               singleVerseEndTime := Some (timestamp_to timing),
               sound_commands := sound_commands st @ [PlayAsync]\<rparr>))"

text \<open>
  The third stretch runs when \<^verbatim>\<open>playAsync\<close> has settled: the \<^verbatim>\<open>try\<close> branch when it
  resolved, the \<^verbatim>\<open>catch\<close> branch when it rejected, then \<^verbatim>\<open>finally\<close>.
\<close>

definition playVerse_after_play :: "bool \<Rightarrow> audio_state \<Rightarrow> audio_state" where
  "playVerse_after_play play_ok st =
     (if play_ok
      then st\<lparr>playbackState := Playing, pendingVerseNumber := None\<rparr>
      else st\<lparr>playbackState := Idle, singleVerseEndTime := None, pendingVerseNumber := None\<rparr>)"

text \<open>\<^verbatim>\<open>pause()\<close>: with a sound, it is paused and the boundary cleared.\<close>

definition pause :: "audio_state \<Rightarrow> audio_state" where
  "pause st =
     (if sound_created st
      then clearVerseEndBoundary
             (st\<lparr>sound_commands := sound_commands st @ [PauseAsync], playbackState := Paused\<rparr>)
      else st)"

text \<open>
  \<^verbatim>\<open>resume()\<close>, in two stretches: up to the \<^verbatim>\<open>await\<close> of \<^verbatim>\<open>playAsync\<close>, and the code run when
  it has settled, \<open>play_ok\<close> saying that it resolved.
\<close>

datatype resume_step = Resume_returned | Resume_awaiting_play

definition resume_until_play :: "audio_state \<Rightarrow> resume_step \<times> audio_state" where
  "resume_until_play st =
     (if \<not> sound_created st \<or> falsy_string (cur_audioUrl st) then (Resume_returned, st)
      else (let st1 = clearVerseEndBoundary (st\<lparr>isSingleVerseMode := False\<rparr>)
            in (Resume_awaiting_play, st1\<lparr>sound_commands := sound_commands st1 @ [PlayAsync]\<rparr>)))"

definition resume_after_play :: "bool \<Rightarrow> audio_state \<Rightarrow> audio_state" where
  "resume_after_play play_ok st = (if play_ok then st\<lparr>playbackState := Playing\<rparr> else st)"

text \<open>\<^verbatim>\<open>stop()\<close>.\<close>

definition stop :: "audio_state \<Rightarrow> audio_state" where
  "stop st =
     (let st1 = (if sound_created st
                 then st\<lparr>sound_commands := sound_commands st @ [PauseAsync, SetPositionAsync 0]\<rparr>
                 else st)
      in clearVerseEndBoundary
           (st1\<lparr>playbackState := Idle, currentVerseKey := None, isSingleVerseMode := False\<rparr>))"

section \<open>Reading screen: last viewed verse (screens/ReadScreen.tsx)\<close>

text \<open>
  Offsets, insets and scroll positions are JavaScript numbers, that is doubles, and the
  code adds them with the rounding addition of doubles. The model therefore does not
  fix the numbers: they are any type \<open>'n\<close> with an addition \<open>+\<close> and a comparison
  \<open>\<le>\<close> of which no law is assumed (the sort \<open>{plus, ord}\<close> has no axioms), and
  \<open>number k\<close> is the number that the literal \<open>k\<close> denotes. The doubles with their own
  addition and comparison are one such type; every statement below holds for them.

  \<^verbatim>\<open>verseOffsetsRef.current\<close> is an object from verse numbers to layout offsets, filled
  by \<^verbatim>\<open>onVerseLayout\<close>. It is modelled as an association list read with \<open>map_of\<close>;
  its keys are \<open>map fst\<close>. The test of the loop, \<^verbatim>\<open>offsets[verseNumber] <= viewportTop\<close>,
  is false for a missing key (\<^verbatim>\<open>undefined <= x\<close>).
\<close>

definition offset_reached :: "(int \<times> 'n::ord) list \<Rightarrow> 'n \<Rightarrow> int \<Rightarrow> bool" where
  "offset_reached offsets viewportTop verseNumber =
     (case map_of offsets verseNumber of
        Some off \<Rightarrow> off \<le> viewportTop
      | None \<Rightarrow> False)"

text \<open>
  The \<^verbatim>\<open>for ... of\<close> loop over the sorted verse numbers: the candidate moves to each
  verse whose offset is at most the viewport top, and the loop breaks at the first
  verse that lies below it.
\<close>

fun lastViewed_loop :: "(int \<times> 'n::ord) list \<Rightarrow> 'n \<Rightarrow> int \<Rightarrow> int list \<Rightarrow> int" where
  "lastViewed_loop offsets viewportTop candidate [] = candidate"
| "lastViewed_loop offsets viewportTop candidate (verseNumber # rest) =
     (if offset_reached offsets viewportTop verseNumber
      then lastViewed_loop offsets viewportTop verseNumber rest
      else candidate)"

text \<open>
  \<^verbatim>\<open>getLastViewedVerse(scrollY)\<close>, with the safe-area inset and the offsets object it
  reads from its closure as arguments. \<^verbatim>\<open>Object.keys(offsets).map(Number)\<close> filtered
  and sorted numerically is the ascending list of the distinct keys. The viewport top
  is the sum as the code forms it, from left to right.
\<close>

definition getLastViewedVerse ::
  "(nat \<Rightarrow> 'n::{plus,ord}) \<Rightarrow> 'n \<Rightarrow> (int \<times> 'n) list \<Rightarrow> 'n \<Rightarrow> int option" where
  "getLastViewedVerse number insets_top offsets scrollY =
     (let verseNumbers = sort (remdups (map fst offsets)) in
      case verseNumbers of
        [] \<Rightarrow> None
      | first # _ \<Rightarrow>
          (let viewportTop = scrollY + insets_top + number 56 + number 12 in
           Some (lastViewed_loop offsets viewportTop first verseNumbers)))"

section \<open>Subscription status (hooks/useStripeSubscription.ts)\<close>

text \<open>
  The interfaces \<^verbatim>\<open>ProductSubscription\<close> and \<^verbatim>\<open>StripeSubscriptions\<close>. The field
  \<^verbatim>\<open>bundle\<close> is written \<open>bundle_sub\<close>, since \<open>bundle\<close> is a keyword of Isabelle.
\<close>

record ProductSubscription =
  subscribed :: bool
  subscription_end :: "string option"

record StripeSubscriptions =
  read :: ProductSubscription
  audiobook :: ProductSubscription
  bundle_sub :: ProductSubscription

definition DEFAULT_SUBSCRIPTIONS :: StripeSubscriptions where
  "DEFAULT_SUBSCRIPTIONS =
     \<lparr>read = \<lparr>subscribed = False, subscription_end = None\<rparr>,
      audiobook = \<lparr>subscribed = False, subscription_end = None\<rparr>,
      bundle_sub = \<lparr>subscribed = False, subscription_end = None\<rparr>\<rparr>"

text \<open>
  \<^verbatim>\<open>ProductType\<close> is \<^verbatim>\<open>"read" | "audiobook" | "bundle"\<close>. A plan's \<^verbatim>\<open>product_type\<close> is cast
  from a database string, so a fourth case stands for any other string: assigning
  \<^verbatim>\<open>newSubscriptions[productType]\<close> then adds a property that is none of the three.
\<close>

datatype ProductType = Read | Audiobook | Bundle | Other_product string

text \<open>The fields of \<^verbatim>\<open>SubscriptionPlan\<close> that the check reads.\<close>

record SubscriptionPlan =
  plan_id :: string
  product_type :: ProductType
  stripe_product_id :: "string option"

text \<open>An element of \<^verbatim>\<open>data.subscriptions\<close> in the response of \<^verbatim>\<open>check-subscription\<close>.\<close>

record remote_subscription =
  product_id :: string
  remote_subscription_end :: string
  status :: "string option"

text \<open>\<^verbatim>\<open>newSubscriptions[productType] = value\<close>.\<close>

fun assign_product ::
  "ProductType \<Rightarrow> ProductSubscription \<Rightarrow> StripeSubscriptions \<Rightarrow> StripeSubscriptions" where
  "assign_product Read v s = s\<lparr>read := v\<rparr>"
| "assign_product Audiobook v s = s\<lparr>audiobook := v\<rparr>"
| "assign_product Bundle v s = s\<lparr>bundle_sub := v\<rparr>"
| "assign_product (Other_product _) v s = s"

text \<open>The body of \<^verbatim>\<open>for (const plan of currentPlans)\<close> for one plan.\<close>

definition apply_plan ::
  "remote_subscription \<Rightarrow> SubscriptionPlan \<Rightarrow> StripeSubscriptions \<Rightarrow> StripeSubscriptions" where
  "apply_plan sub plan newSubscriptions =
     (if stripe_product_id plan = Some (product_id sub)
      then
        (let productType = product_type plan;
             s1 = assign_product productType
                    \<lparr>subscribed = True, subscription_end = Some (remote_subscription_end sub)\<rparr>
                    newSubscriptions
         in if productType = Bundle
            then s1\<lparr>read := \<lparr>subscribed = True,
                               subscription_end = Some (remote_subscription_end sub)\<rparr>,
                     audiobook := \<lparr>subscribed = True,
                               subscription_end = Some (remote_subscription_end sub)\<rparr>\<rparr>
            else s1)
      else newSubscriptions)"

fun plans_loop ::
  "remote_subscription \<Rightarrow> SubscriptionPlan list \<Rightarrow> StripeSubscriptions \<Rightarrow> StripeSubscriptions" where
  "plans_loop sub [] newSubscriptions = newSubscriptions"
| "plans_loop sub (plan # rest) newSubscriptions =
     plans_loop sub rest (apply_plan sub plan newSubscriptions)"

text \<open>The callback of \<^verbatim>\<open>data.subscriptions.forEach\<close>: a cancelled subscription is skipped.\<close>

definition apply_subscription ::
  "SubscriptionPlan list \<Rightarrow> remote_subscription \<Rightarrow> StripeSubscriptions \<Rightarrow> StripeSubscriptions" where
  "apply_subscription currentPlans sub newSubscriptions =
     (if status sub = Some ''canceled'' \<or> status sub = Some ''cancelled''
      then newSubscriptions
      else plans_loop sub currentPlans newSubscriptions)"

fun subscriptions_forEach ::
  "SubscriptionPlan list \<Rightarrow> remote_subscription list \<Rightarrow> StripeSubscriptions \<Rightarrow> StripeSubscriptions" where
  "subscriptions_forEach currentPlans [] newSubscriptions = newSubscriptions"
| "subscriptions_forEach currentPlans (sub # rest) newSubscriptions =
     subscriptions_forEach currentPlans rest (apply_subscription currentPlans sub newSubscriptions)"

text \<open>
  The value \<^verbatim>\<open>newSubscriptions\<close> of \<^verbatim>\<open>performCheck\<close>: all three products start
  unsubscribed; \<^verbatim>\<open>data.subscriptions\<close> is walked when it is an array (\<open>Some\<close>).
\<close>

definition build_newSubscriptions ::
  "SubscriptionPlan list \<Rightarrow> remote_subscription list option \<Rightarrow> StripeSubscriptions" where
  "build_newSubscriptions currentPlans data_subscriptions =
     (case data_subscriptions of
        None \<Rightarrow> DEFAULT_SUBSCRIPTIONS
      | Some subs \<Rightarrow> subscriptions_forEach currentPlans subs DEFAULT_SUBSCRIPTIONS)"

text \<open>
  The response of \<^verbatim>\<open>supabase.functions.invoke("check-subscription")\<close>: \<^verbatim>\<open>error\<close> with
  its optional message, and \<^verbatim>\<open>data\<close>, which is \<^verbatim>\<open>null\<close> or carries an optional
  \<^verbatim>\<open>error\<close> string and an optional \<^verbatim>\<open>subscriptions\<close> array.
\<close>

record check_data =
  data_error :: "string option"
  data_subscriptions :: "remote_subscription list option"

record invoke_result =
  fnError :: "string option option"
  data :: "check_data option"

definition mentions_auth :: "string \<Rightarrow> bool" where
  "mentions_auth message = (str_includes message ''Auth'' \<or> str_includes message ''session'')"

text \<open>
  The value that \<^verbatim>\<open>performCheck\<close> hands to \<^verbatim>\<open>setSubscriptions\<close>, or \<open>None\<close> when it
  throws before doing so (the \<^verbatim>\<open>catch\<close> block leaves the subscriptions as they
  were). The arguments are the fresh session's access token, the outcome of the
  \<^verbatim>\<open>invoke\<close> call (\<open>Inl\<close> when it rejects) and the plans held in \<^verbatim>\<open>plansRef\<close>.
\<close>

definition performCheck_subscriptions ::
  "string option \<Rightarrow> thrown + invoke_result \<Rightarrow> SubscriptionPlan list
     \<Rightarrow> StripeSubscriptions option" where
  "performCheck_subscriptions fresh_access_token invoked currentPlans =
     (if falsy_string fresh_access_token then Some DEFAULT_SUBSCRIPTIONS
      else case invoked of
        Inl e \<Rightarrow> None
      | Inr res \<Rightarrow>
          (case fnError res of
             Some message \<Rightarrow>
               (case message of
                  Some m \<Rightarrow> if mentions_auth m then Some DEFAULT_SUBSCRIPTIONS else None
                | None \<Rightarrow> None)
           | None \<Rightarrow>
               (case data res of
                  None \<Rightarrow> None
                | Some d \<Rightarrow>
                    (case data_error d of
                       Some err \<Rightarrow>
                         if err \<noteq> []
                         then (if mentions_auth err then Some DEFAULT_SUBSCRIPTIONS else None)
                         else Some (build_newSubscriptions currentPlans (data_subscriptions d))
                     | None \<Rightarrow>
                         Some (build_newSubscriptions currentPlans (data_subscriptions d))))))"

text \<open>
  The value that a call of \<^verbatim>\<open>checkSubscription\<close> which is not answered by a check
  already in flight hands to \<^verbatim>\<open>setSubscriptions\<close>: the defaults when there is no
  session token or no user, the value of \<^verbatim>\<open>performCheck\<close> otherwise.
\<close>

definition checkSubscription_subscriptions ::
  "string option \<Rightarrow> string option \<Rightarrow> string option \<Rightarrow> thrown + invoke_result
     \<Rightarrow> SubscriptionPlan list \<Rightarrow> StripeSubscriptions option" where
  "checkSubscription_subscriptions session_access_token user_id fresh_access_token invoked
       currentPlans =
     (if falsy_string session_access_token \<or> user_id = None
      then Some DEFAULT_SUBSCRIPTIONS
      else performCheck_subscriptions fresh_access_token invoked currentPlans)"

text \<open>The access flags that the hook returns.\<close>

definition hasReadAccess :: "StripeSubscriptions \<Rightarrow> bool" where
  "hasReadAccess subscriptions = (subscribed (read subscriptions) \<or> subscribed (bundle_sub subscriptions))"

definition hasAudiobookAccess :: "StripeSubscriptions \<Rightarrow> bool" where
  "hasAudiobookAccess subscriptions =
     (subscribed (audiobook subscriptions) \<or> subscribed (bundle_sub subscriptions))"

definition hasBundleAccess :: "StripeSubscriptions \<Rightarrow> bool" where
  "hasBundleAccess subscriptions = subscribed (bundle_sub subscriptions)"

text \<open>
  Vocabulary for the statements: some subscription of the response that is not
  cancelled names the Stripe product of a plan of the given product type.
\<close>

definition live_match :: "SubscriptionPlan list \<Rightarrow> remote_subscription list \<Rightarrow> ProductType \<Rightarrow> bool" where
  "live_match plans subs t =
     (\<exists>sub \<in> set subs. \<exists>plan \<in> set plans.
        status sub \<noteq> Some ''canceled'' \<and> status sub \<noteq> Some ''cancelled'' \<and>
        stripe_product_id plan = Some (product_id sub) \<and> product_type plan = t)"

subsection \<open>The subscription cache\<close>

definition SUBSCRIPTION_CACHE_KEY :: string where
  "SUBSCRIPTION_CACHE_KEY = ''subscription_status''"

definition SUBSCRIPTION_CACHE_EXPIRY_KEY :: string where
  "SUBSCRIPTION_CACHE_EXPIRY_KEY = ''subscription_status_expiry''"

definition CACHE_DURATION_MS :: nat where
  "CACHE_DURATION_MS = 3600000"

text \<open>
  \<^verbatim>\<open>AsyncStorage\<close> holds strings under string keys. Each of its calls returns a promise
  that may reject; which calls reject during one run of a function is given by a
  predicate on the calls.
\<close>

type_synonym async_storage = "string \<rightharpoonup> string"

datatype storage_call = GetItem string | SetItem string | MultiRemove "string list"

text \<open>
  The object \<^verbatim>\<open>{ subscriptions, userId }\<close> of type \<^verbatim>\<open>CachedSubscription\<close> as the value that
  \<^verbatim>\<open>JSON.stringify\<close> is given.
\<close>

definition product_json :: "ProductSubscription \<Rightarrow> json" where
  "product_json p =
     JObject [(''subscribed'', JBool (subscribed p)),
              (''subscription_end'',
                 (case subscription_end p of None \<Rightarrow> JNull | Some e \<Rightarrow> JString e))]"

definition subscriptions_json :: "StripeSubscriptions \<Rightarrow> json" where
  "subscriptions_json s =
     JObject [(''read'', product_json (read s)),
              (''audiobook'', product_json (audiobook s)),
              (''bundle'', product_json (bundle_sub s))]"

definition cached_json :: "string \<Rightarrow> StripeSubscriptions \<Rightarrow> json" where
  "cached_json userId subscriptions =
     JObject [(''subscriptions'', subscriptions_json subscriptions), (''userId'', JString userId)]"

text \<open>
  \<^verbatim>\<open>getCachedSubscription(userId)\<close>. \<open>parse\<close> is \<^verbatim>\<open>JSON.parse\<close> (\<open>Inl\<close> when it throws),
  \<open>rejects\<close> tells which storage calls reject, \<open>now\<close> is \<^verbatim>\<open>Date.now()\<close>. The result is
  the returned value (\<open>Some JNull\<close> for \<^verbatim>\<open>null\<close>) with the storage left behind. Every
  rejection and every exception ends in the \<^verbatim>\<open>catch\<close> block, which returns \<^verbatim>\<open>null\<close>.
\<close>

definition getCachedSubscription ::
  "(string \<Rightarrow> thrown + json) \<Rightarrow> (storage_call \<Rightarrow> bool) \<Rightarrow> nat \<Rightarrow> string \<Rightarrow> async_storage
     \<Rightarrow> json option \<times> async_storage" where
  "getCachedSubscription parse rejects now userId items =
     (if rejects (GetItem SUBSCRIPTION_CACHE_KEY) then (Some JNull, items)
      else if rejects (GetItem SUBSCRIPTION_CACHE_EXPIRY_KEY) then (Some JNull, items)
      else
        case (items SUBSCRIPTION_CACHE_KEY, items SUBSCRIPTION_CACHE_EXPIRY_KEY) of
          (Some cached, Some expiry) \<Rightarrow>
            if cached = [] \<or> expiry = [] then (Some JNull, items)
            else if (case parseInt expiry of None \<Rightarrow> False | Some e \<Rightarrow> int now > e)
            then
              (if rejects (MultiRemove [SUBSCRIPTION_CACHE_KEY, SUBSCRIPTION_CACHE_EXPIRY_KEY])
               then (Some JNull, items)
               else (Some JNull,
                     items(SUBSCRIPTION_CACHE_KEY := None, SUBSCRIPTION_CACHE_EXPIRY_KEY := None)))
            else
              (case parse cached of
                 Inl e \<Rightarrow> (Some JNull, items)
               | Inr parsed \<Rightarrow>
                   (case get_property parsed ''userId'' of
                      Inl e \<Rightarrow> (Some JNull, items)
                    | Inr stored_user \<Rightarrow>
                        if stored_user \<noteq> Some (JString userId)
                        then
                          (if rejects (MultiRemove [SUBSCRIPTION_CACHE_KEY,
                                                    SUBSCRIPTION_CACHE_EXPIRY_KEY])
                           then (Some JNull, items)
                           else (Some JNull,
                                 items(SUBSCRIPTION_CACHE_KEY := None,
                                       SUBSCRIPTION_CACHE_EXPIRY_KEY := None)))
                        else
                          (case get_property parsed ''subscriptions'' of
                             Inl e \<Rightarrow> (Some JNull, items)
                           | Inr subscriptions \<Rightarrow> (subscriptions, items))))
        | _ \<Rightarrow> (Some JNull, items))"

text \<open>
  \<^verbatim>\<open>cacheSubscription(userId, subscriptions)\<close>. \<open>stringify\<close> is \<^verbatim>\<open>JSON.stringify\<close>; \<open>now\<close>
  is the value of \<^verbatim>\<open>Date.now()\<close> when the expiry is written. A rejected \<^verbatim>\<open>setItem\<close> ends
  the function through its \<^verbatim>\<open>catch\<close> block.
\<close>

definition cacheSubscription ::
  "(json \<Rightarrow> string) \<Rightarrow> (storage_call \<Rightarrow> bool) \<Rightarrow> nat \<Rightarrow> string \<Rightarrow> StripeSubscriptions
     \<Rightarrow> async_storage \<Rightarrow> async_storage" where
  "cacheSubscription stringify rejects now userId subscriptions items =
     (if rejects (SetItem SUBSCRIPTION_CACHE_KEY) then items
      else
        (let items1 = items(SUBSCRIPTION_CACHE_KEY \<mapsto> stringify (cached_json userId subscriptions))
         in if rejects (SetItem SUBSCRIPTION_CACHE_EXPIRY_KEY) then items1
            else items1(SUBSCRIPTION_CACHE_EXPIRY_KEY \<mapsto> String_of_nat (now + CACHE_DURATION_MS))))"

subsection \<open>The check in flight\<close>

text \<open>
  \<^verbatim>\<open>checkSubscription\<close> and the promises of \<^verbatim>\<open>performCheck\<close>, as events on the hook's
  ref. Promises are numbered in the order they are created. \<open>inFlight\<close> is
  \<^verbatim>\<open>inFlightRequestRef.current\<close>; \<open>pending\<close> lists the promises of \<^verbatim>\<open>performCheck\<close> that
  have not settled. (\<^verbatim>\<open>performCheck\<close> awaits before it can reach its \<^verbatim>\<open>finally\<close>
  block, so the ref is assigned before the block runs.)
\<close>

record check_state =
  inFlight :: "nat option"
  pending :: "nat list"
  next_promise :: nat

definition initial_check_state :: check_state where
  "initial_check_state = \<lparr>inFlight = None, pending = [], next_promise = 0\<rparr>"

text \<open>
  What a call of \<^verbatim>\<open>checkSubscription\<close> returns: \<^verbatim>\<open>undefined\<close> from the guard on session
  and user, the promise found in the ref, or the promise of the check it started.
\<close>

datatype call_result = Returned_undefined | Returned_in_flight nat | Started nat

text \<open>
  \<^verbatim>\<open>checkSubscription(options)\<close>: \<open>signed_in\<close> says that the session has an access token
  and the user is set, \<open>force\<close> is \<^verbatim>\<open>options?.force\<close>.
\<close>

definition checkSubscription_call :: "bool \<Rightarrow> bool \<Rightarrow> check_state \<Rightarrow> call_result \<times> check_state" where
  "checkSubscription_call signed_in force st =
     (let started =
            (let p = next_promise st
             in (Started p,
                 st\<lparr>inFlight := Some p, pending := pending st @ [p], next_promise := Suc p\<rparr>))
      in if \<not> signed_in then (Returned_undefined, st)
         else
           case inFlight st of
             Some p \<Rightarrow> if \<not> force then (Returned_in_flight p, st) else started
           | None \<Rightarrow> started)"

text \<open>
  The \<^verbatim>\<open>finally\<close> block of the run of \<^verbatim>\<open>performCheck\<close> with promise \<open>p\<close>, reached on
  success and on error alike: the ref is set to \<^verbatim>\<open>null\<close>, whichever promise it holds.
  Only a pending run can complete.
\<close>

definition performCheck_finally :: "nat \<Rightarrow> check_state \<Rightarrow> check_state" where
  "performCheck_finally p st =
     (if p \<in> set (pending st)
      then st\<lparr>inFlight := None, pending := filter (\<lambda>q. q \<noteq> p) (pending st)\<rparr>
      else st)"

datatype check_event = Call bool bool | Complete nat

fun check_step :: "check_state \<Rightarrow> check_event \<Rightarrow> check_state" where
  "check_step st (Call signed_in force) = snd (checkSubscription_call signed_in force st)"
| "check_step st (Complete p) = performCheck_finally p st"

fun forced :: "check_event \<Rightarrow> bool" where
  "forced (Call signed_in force) = force"
| "forced (Complete p) = False"

text \<open>
  Without forced calls the ref and the pending runs agree: the ref is empty and nothing
  is pending, or the ref holds the one pending promise.
\<close>

definition slot_agrees :: "check_state \<Rightarrow> bool" where
  "slot_agrees st =
     (case inFlight st of None \<Rightarrow> pending st = [] | Some p \<Rightarrow> pending st = [p])"

section \<open>Bookmarks (hooks/useBookmarks.ts)\<close>

text \<open>
  The interface \<^verbatim>\<open>Bookmark\<close>. Its fields \<^verbatim>\<open>id\<close> and \<^verbatim>\<open>note\<close> are written
  \<open>bookmark_id\<close> and \<open>bookmark_note\<close>: \<open>id\<close> is the identity function of HOL and
  \<open>note\<close> a keyword of Isabelle.
\<close>

record Bookmark =
  bookmark_id :: string
  surah_number :: int
  verse_number :: int
  bookmark_note :: "string option"
  created_at :: string

text \<open>The payload of \<^verbatim>\<open>toast\<close>.\<close>

record ToastPayload =
  title :: string
  description :: "string option"
  variant :: "string option"

text \<open>
  The hook's state: the verse bookmarks held by \<^verbatim>\<open>useState\<close>, the toasts shown so far
  and the number of \<^verbatim>\<open>fetchBookmarks()\<close> runs started by \<^verbatim>\<open>addBookmark\<close>.
\<close>

record bookmarks_state =
  bookmarks :: "Bookmark list"
  toasts :: "ToastPayload list"
  fetches_started :: nat

text \<open>
  The outcome of a Supabase write: \<^verbatim>\<open>{ error }\<close> with no error, \<^verbatim>\<open>{ error }\<close> with
  an error object and its optional \<^verbatim>\<open>code\<close>, or a rejected promise.
\<close>

datatype backend_result = Backend_ok | Backend_error "string option" | Backend_rejected thrown

text \<open>
  \<^verbatim>\<open>fetchBookmarks\<close> reaching \<^verbatim>\<open>setBookmarks(verseData || [])\<close>: the list is replaced by the
  rows of the query, the empty list when \<open>verseData\<close> is \<^verbatim>\<open>null\<close>. A run that finds no user
  or whose query fails stores nothing.
\<close>

definition fetchBookmarks_setBookmarks :: "Bookmark list option \<Rightarrow> bookmarks_state \<Rightarrow> bookmarks_state" where
  "fetchBookmarks_setBookmarks verseData st =
     st\<lparr>bookmarks := (case verseData of None \<Rightarrow> [] | Some rows \<Rightarrow> rows)\<rparr>"

text \<open>
  \<^verbatim>\<open>addBookmark(surahNumber, verseNumber, note)\<close> awaits twice, and the state may be
  updated by other code at each \<^verbatim>\<open>await\<close>; it is therefore given as the two stretches
  of code that run without interruption, each on the state as it is when the stretch starts.

  The first stretch runs when \<^verbatim>\<open>supabase.auth.getUser()\<close> has resolved with \<open>user\<close>; \<open>now\<close>
  is the value of \<^verbatim>\<open>Date.now()\<close> and \<open>iso_now\<close> that of \<^verbatim>\<open>new Date().toISOString()\<close>. It
  ends the call when there is no user, and otherwise prepends the optimistic bookmark (a
  functional update of the current list) and awaits the insert.
\<close>

datatype addBookmark_step = Add_returned | Add_awaiting_insert Bookmark

definition addBookmark_after_getUser ::
  "string option \<Rightarrow> nat \<Rightarrow> string \<Rightarrow> int \<Rightarrow> int \<Rightarrow> string option \<Rightarrow> bookmarks_state
     \<Rightarrow> addBookmark_step \<times> bookmarks_state" where
  "addBookmark_after_getUser user now iso_now surahNumber verseNumber note_arg st =
     (case user of
        None \<Rightarrow>
          (Add_returned,
           st\<lparr>toasts := toasts st @
               [\<lparr>title = ''Sign in to bookmark'',
                 description = Some ''Please sign in to save verses'',
                 variant = Some ''destructive''\<rparr>]\<rparr>)
      | Some user_id \<Rightarrow>
          (let optimisticBookmark =
                 \<lparr>bookmark_id = ''temp-'' @ String_of_nat now,
                  surah_number = surahNumber,
                  verse_number = verseNumber,
                  bookmark_note = note_arg,
                  created_at = iso_now\<rparr>
           in (Add_awaiting_insert optimisticBookmark,
               st\<lparr>bookmarks := optimisticBookmark # bookmarks st\<rparr>)))"

text \<open>
  The second stretch runs when the insert has settled with \<open>inserted\<close>. On success
  \<^verbatim>\<open>fetchBookmarks()\<close> is started and not awaited (its \<^verbatim>\<open>setBookmarks\<close> is
  \<open>fetchBookmarks_setBookmarks\<close>, at some later time) and a toast is shown. On failure
  the catch block filters the current list by the optimistic id (again a functional
  update) and shows a toast.
\<close>

definition addBookmark_after_insert ::
  "backend_result \<Rightarrow> Bookmark \<Rightarrow> int \<Rightarrow> int \<Rightarrow> bookmarks_state \<Rightarrow> bookmarks_state" where
  "addBookmark_after_insert inserted optimisticBookmark surahNumber verseNumber st =
     (case inserted of
        Backend_ok \<Rightarrow>
          st\<lparr>fetches_started := Suc (fetches_started st),
             toasts := toasts st @
               [\<lparr>title = ''Bookmark added'',
                 description = Some (''Surah '' @ String_of_int surahNumber @
                   '', Verse '' @ String_of_int verseNumber @ '' has been bookmarked''),
                 variant = None\<rparr>]\<rparr>
      | failure \<Rightarrow>
          (let st1 = st\<lparr>bookmarks :=
                       filter (\<lambda>b. bookmark_id b \<noteq> bookmark_id optimisticBookmark)
                         (bookmarks st)\<rparr>
           in if failure = Backend_error (Some ''23505'')
              then st1\<lparr>toasts := toasts st1 @
                     [\<lparr>title = ''Already bookmarked'',
                       description = Some ''This verse is already in your bookmarks'',
                       variant = None\<rparr>]\<rparr>
              else st1\<lparr>toasts := toasts st1 @
                     [\<lparr>title = ''Error'',
                       description = Some ''Failed to add bookmark'',
                       variant = Some ''destructive''\<rparr>]\<rparr>))"

text \<open>A call of \<^verbatim>\<open>addBookmark\<close> during which nothing else touches the state.\<close>

definition addBookmark ::
  "string option \<Rightarrow> nat \<Rightarrow> string \<Rightarrow> backend_result \<Rightarrow> int \<Rightarrow> int \<Rightarrow> string option
     \<Rightarrow> bookmarks_state \<Rightarrow> bookmarks_state" where
  "addBookmark user now iso_now inserted surahNumber verseNumber note_arg st =
     (case addBookmark_after_getUser user now iso_now surahNumber verseNumber note_arg st of
        (Add_returned, st1) \<Rightarrow> st1
      | (Add_awaiting_insert optimisticBookmark, st1) \<Rightarrow>
          addBookmark_after_insert inserted optimisticBookmark surahNumber verseNumber st1)"

text \<open>
  \<^verbatim>\<open>removeBookmark(surahNumber, verseNumber)\<close>, in the same way. The first stretch runs
  when \<^verbatim>\<open>getUser()\<close> has resolved. \<^verbatim>\<open>previousBookmarks\<close> is a copy of \<^verbatim>\<open>bookmarks\<close>, the
  list of the render the function was created in, here \<open>rendered\<close>; the filter is a
  functional update of the current list.
\<close>

datatype removeBookmark_step = Remove_returned | Remove_awaiting_delete "Bookmark list"

definition removeBookmark_after_getUser ::
  "string option \<Rightarrow> Bookmark list \<Rightarrow> int \<Rightarrow> int \<Rightarrow> bookmarks_state
     \<Rightarrow> removeBookmark_step \<times> bookmarks_state" where
  "removeBookmark_after_getUser user rendered surahNumber verseNumber st =
     (case user of
        None \<Rightarrow> (Remove_returned, st)
      | Some user_id \<Rightarrow>
          (let previousBookmarks = rendered
           in (Remove_awaiting_delete previousBookmarks,
               st\<lparr>bookmarks :=
                    filter (\<lambda>b. \<not> (surah_number b = surahNumber \<and> verse_number b = verseNumber))
                      (bookmarks st)\<rparr>)))"

text \<open>The second stretch runs when the delete has settled with \<open>deleted\<close>.\<close>

definition removeBookmark_after_delete ::
  "backend_result \<Rightarrow> Bookmark list \<Rightarrow> int \<Rightarrow> int \<Rightarrow> bookmarks_state \<Rightarrow> bookmarks_state" where
  "removeBookmark_after_delete deleted previousBookmarks surahNumber verseNumber st =
     (case deleted of
        Backend_ok \<Rightarrow>
          st\<lparr>toasts := toasts st @
               [\<lparr>title = ''Bookmark removed'',
                 description = Some (''Surah '' @ String_of_int surahNumber @
                   '', Verse '' @ String_of_int verseNumber @ '' bookmark has been removed''),
                 variant = None\<rparr>]\<rparr>
      | failure \<Rightarrow>
          st\<lparr>bookmarks := previousBookmarks,
             toasts := toasts st @
               [\<lparr>title = ''Error'',
                 description = Some ''Failed to remove bookmark'',
                 variant = Some ''destructive''\<rparr>]\<rparr>)"

text \<open>A call of \<^verbatim>\<open>removeBookmark\<close> during which nothing else touches the state.\<close>

definition removeBookmark ::
  "string option \<Rightarrow> backend_result \<Rightarrow> Bookmark list \<Rightarrow> int \<Rightarrow> int \<Rightarrow> bookmarks_state
     \<Rightarrow> bookmarks_state" where
  "removeBookmark user deleted rendered surahNumber verseNumber st =
     (case removeBookmark_after_getUser user rendered surahNumber verseNumber st of
        (Remove_returned, st1) \<Rightarrow> st1
      | (Remove_awaiting_delete previousBookmarks, st1) \<Rightarrow>
          removeBookmark_after_delete deleted previousBookmarks surahNumber verseNumber st1)"

section \<open>Footnote markup (utils/stripFootnoteTags.ts)\<close>

text \<open>
  The three regular expressions carry the flags \<^verbatim>\<open>g\<close> and \<^verbatim>\<open>i\<close>. Under \<^verbatim>\<open>i\<close> a letter
  of the pattern matches itself in either case; for the letters of \<^verbatim>\<open>footnote\<close> these
  are the two ASCII letters. \<open>ascii_lower\<close> folds the case of an ASCII letter.
\<close>

definition ascii_lower :: "char \<Rightarrow> char" where
  "ascii_lower c =
     (case map_of (zip ''ABCDEFGHIJKLMNOPQRSTUVWXYZ'' ''abcdefghijklmnopqrstuvwxyz'') c of
        Some l \<Rightarrow> l
      | None \<Rightarrow> c)"

text \<open>
  A literal of the pattern (given in lower case) matched at the head of the text without
  regard to case: the rest of the text after it, or \<open>None\<close>.
\<close>

fun strip_prefix_ci :: "string \<Rightarrow> string \<Rightarrow> string option" where
  "strip_prefix_ci [] s = Some s"
| "strip_prefix_ci (p # ps) [] = None"
| "strip_prefix_ci (p # ps) (c # cs) =
     (if ascii_lower c = ascii_lower p then strip_prefix_ci ps cs else None)"

text \<open>
  \<^verbatim>\<open>/<footnote\s+[^>]*>/\<close> matched at the head of the text: after the name at least
  one white-space character, then everything up to the first \<^verbatim>\<open>>\<close>, which must
  exist (\<^verbatim>\<open>[^>]*\<close> cannot pass it, and white space is not \<^verbatim>\<open>>\<close>). The result is the
  text after the match.
\<close>

definition match_open :: "string \<Rightarrow> string option" where
  "match_open s =
     (case strip_prefix_ci ''<footnote'' s of
        None \<Rightarrow> None
      | Some r \<Rightarrow>
          (case r of
             [] \<Rightarrow> None
           | w # r' \<Rightarrow>
               if js_whitespace w
               then (case dropWhile (\<lambda>c. c \<noteq> CHR ''>'') r' of
                       [] \<Rightarrow> None
                     | _ # rest \<Rightarrow> Some rest)
               else None))"

text \<open>\<^verbatim>\<open>/<\/footnote>/\<close> matched at the head of the text.\<close>

definition match_close :: "string \<Rightarrow> string option" where
  "match_close s = strip_prefix_ci ''</footnote>'' s"

text \<open>
  \<^verbatim>\<open>/<footnote[^>]*\/>/\<close> matched at the head of the text: the \<^verbatim>\<open>>\<close> of the pattern
  is the first one after the name, and the character before it must be the slash.
\<close>

definition match_self_closing :: "string \<Rightarrow> string option" where
  "match_self_closing s =
     (case strip_prefix_ci ''<footnote'' s of
        None \<Rightarrow> None
      | Some r \<Rightarrow>
          (let attrs = takeWhile (\<lambda>c. c \<noteq> CHR ''>'') r
           in case dropWhile (\<lambda>c. c \<noteq> CHR ''>'') r of
                [] \<Rightarrow> None
              | _ # rest \<Rightarrow>
                  if attrs \<noteq> [] \<and> last attrs = CHR ''/'' then Some rest else None))"

lemma strip_prefix_ci_shorter:
  "strip_prefix_ci p s = Some r \<Longrightarrow> length r + length p = length s"
  by (induction p s rule: strip_prefix_ci.induct) (auto split: if_splits)

lemma length_after_dropWhile:
  assumes "dropWhile P xs = y # rest"
  shows "length rest < length xs"
proof -
  have "length (dropWhile P xs) \<le> length xs" by (rule length_dropWhile_le)
  with assms show ?thesis by simp
qed

lemma match_open_shorter:
  assumes "match_open s = Some rest"
  shows "length rest < length s"
proof -
  from assms obtain r where r: "strip_prefix_ci ''<footnote'' s = Some r"
    unfolding match_open_def by (cases "strip_prefix_ci ''<footnote'' s") simp_all
  with assms obtain w r' where wr: "r = w # r'"
    unfolding match_open_def by (cases r) simp_all
  define d where "d = dropWhile (\<lambda>c. c \<noteq> CHR ''>'') r'"
  from assms r wr have "(case d of [] \<Rightarrow> None | _ # rest' \<Rightarrow> Some rest') = Some rest"
    unfolding match_open_def d_def by (simp split: if_splits)
  then obtain y where "d = y # rest" by (cases d) simp_all
  then have "length rest < length r'" unfolding d_def by (rule length_after_dropWhile)
  moreover have "length r \<le> length s" using strip_prefix_ci_shorter [OF r] by simp
  ultimately show ?thesis using wr by simp
qed

lemma match_close_shorter:
  assumes "match_close s = Some rest"
  shows "length rest < length s"
  using strip_prefix_ci_shorter [of "''</footnote>''" s rest] assms
  by (simp add: match_close_def)

lemma match_self_closing_shorter:
  assumes "match_self_closing s = Some rest"
  shows "length rest < length s"
proof -
  from assms obtain r where r: "strip_prefix_ci ''<footnote'' s = Some r"
    unfolding match_self_closing_def by (cases "strip_prefix_ci ''<footnote'' s") simp_all
  define d where "d = dropWhile (\<lambda>c. c \<noteq> CHR ''>'') r"
  from assms r have "(case d of [] \<Rightarrow> None
      | _ # rest' \<Rightarrow>
          if takeWhile (\<lambda>c. c \<noteq> CHR ''>'') r \<noteq> [] \<and>
             last (takeWhile (\<lambda>c. c \<noteq> CHR ''>'') r) = CHR ''/''
          then Some rest' else None) = Some rest"
    unfolding match_self_closing_def Let_def d_def by simp
  then obtain y where "d = y # rest" by (cases d) (simp_all split: if_splits)
  then have "length rest < length r" unfolding d_def by (rule length_after_dropWhile)
  moreover have "length r \<le> length s" using strip_prefix_ci_shorter [OF r] by simp
  ultimately show ?thesis by simp
qed

text \<open>
  \<^verbatim>\<open>text.replace(pattern, "")\<close> with the flag \<^verbatim>\<open>g\<close>: the text is scanned from the left;
  where the pattern matches, the match is dropped and the scan goes on after it;
  elsewhere the character is kept. One function for each of the three patterns.
\<close>

function replace_open :: "string \<Rightarrow> string" where
  "replace_open [] = []"
| "replace_open (c # cs) =
     (case match_open (c # cs) of
        Some rest \<Rightarrow> replace_open rest
      | None \<Rightarrow> c # replace_open cs)"
  by pat_completeness auto
termination
  by (relation "measure length") (auto dest: match_open_shorter)

function replace_close :: "string \<Rightarrow> string" where
  "replace_close [] = []"
| "replace_close (c # cs) =
     (case match_close (c # cs) of
        Some rest \<Rightarrow> replace_close rest
      | None \<Rightarrow> c # replace_close cs)"
  by pat_completeness auto
termination
  by (relation "measure length") (auto dest: match_close_shorter)

function replace_self_closing :: "string \<Rightarrow> string" where
  "replace_self_closing [] = []"
| "replace_self_closing (c # cs) =
     (case match_self_closing (c # cs) of
        Some rest \<Rightarrow> replace_self_closing rest
      | None \<Rightarrow> c # replace_self_closing cs)"
  by pat_completeness auto
termination
  by (relation "measure length") (auto dest: match_self_closing_shorter)

text \<open>\<^verbatim>\<open>stripFootnoteTags(text)\<close>; \<open>None\<close> is \<^verbatim>\<open>null\<close> or \<^verbatim>\<open>undefined\<close>.\<close>

definition stripFootnoteTags :: "string option \<Rightarrow> string" where
  "stripFootnoteTags text =
     replace_self_closing
       (replace_close
          (replace_open (case text of None \<Rightarrow> [] | Some t \<Rightarrow> t)))"

text \<open>
  Vocabulary for the statements: markup in which every tag is whole. A text is a sequence
  of segments: plain text without \<^verbatim>\<open><\<close>, an opening tag with attributes
  (\<^verbatim>\<open><footnote\<close> in any case, a white-space character, attribute text, \<^verbatim>\<open>>\<close>), a
  closing tag (\<^verbatim>\<open></footnote>\<close> in any case), or a self-closing tag (\<^verbatim>\<open><footnote\<close> in
  any case, attribute text, \<^verbatim>\<open>/>\<close>). Attribute text holds neither \<^verbatim>\<open><\<close> nor \<^verbatim>\<open>>\<close>.
\<close>

datatype segment =
    Plain string
  | Open_tag string char string
  | Close_tag string
  | Self_closing_tag string string

fun render :: "segment \<Rightarrow> string" where
  "render (Plain t) = t"
| "render (Open_tag name w attrs) = name @ w # attrs @ ''>''"
| "render (Close_tag name) = name"
| "render (Self_closing_tag name attrs) = name @ attrs @ ''/>''"

fun well_formed :: "segment \<Rightarrow> bool" where
  "well_formed (Plain t) \<longleftrightarrow> CHR ''<'' \<notin> set t"
| "well_formed (Open_tag name w attrs) \<longleftrightarrow>
     map ascii_lower name = ''<footnote'' \<and> js_whitespace w \<and>
     CHR ''<'' \<notin> set attrs \<and> CHR ''>'' \<notin> set attrs"
| "well_formed (Close_tag name) \<longleftrightarrow> map ascii_lower name = ''</footnote>''"
| "well_formed (Self_closing_tag name attrs) \<longleftrightarrow>
     map ascii_lower name = ''<footnote'' \<and>
     CHR ''<'' \<notin> set attrs \<and> CHR ''>'' \<notin> set attrs"

fun plain_text :: "segment \<Rightarrow> string" where
  "plain_text (Plain t) = t"
| "plain_text _ = []"

definition render_all :: "segment list \<Rightarrow> string" where
  "render_all segs = concat (map render segs)"

text \<open>Which segments each of the three replacements drops.\<close>

fun dropped_by_open :: "segment \<Rightarrow> bool" where
  "dropped_by_open (Open_tag name w attrs) = True"
| "dropped_by_open (Self_closing_tag name attrs) =
     (case attrs of [] \<Rightarrow> False | w # _ \<Rightarrow> js_whitespace w)"
| "dropped_by_open _ = False"

fun dropped_by_close :: "segment \<Rightarrow> bool" where
  "dropped_by_close (Close_tag name) = True"
| "dropped_by_close _ = False"

fun dropped_by_self_closing :: "segment \<Rightarrow> bool" where
  "dropped_by_self_closing (Self_closing_tag name attrs) = True"
| "dropped_by_self_closing (Open_tag name w attrs) = (last (w # attrs) = CHR ''/'')"
| "dropped_by_self_closing _ = False"

section \<open>Decimal numerals: \<^verbatim>\<open>parseInt\<close> reads what \<^verbatim>\<open>String\<close> writes\<close>

lemma digit_char_props:
  assumes "d < 10"
  shows "is_digit (digit_char d)" and "digit_val (digit_char d) = d"
    and "\<not> js_whitespace (digit_char d)" and "digit_char d \<noteq> CHR ''-''" and "digit_char d \<noteq> CHR ''+''"
proof -
  from assms have "d \<in> {0, 1, 2, 3, 4, 5, 6, 7, 8, 9}" by auto
  then show "is_digit (digit_char d)" and "digit_val (digit_char d) = d"
    and "\<not> js_whitespace (digit_char d)" and "digit_char d \<noteq> CHR ''-''" and "digit_char d \<noteq> CHR ''+''"
    by (auto simp: digit_char_def is_digit_def digit_val_def js_whitespace_def)
qed

lemma String_of_nat_digits: "\<forall>c \<in> set (String_of_nat n). is_digit c"
proof (induction n rule: String_of_nat.induct)
  case (1 n)
  show ?case
  proof (cases "n < 10")
    case True
    then show ?thesis by (subst String_of_nat.simps) (simp add: digit_char_props)
  next
    case False
    then show ?thesis using 1
      by (subst String_of_nat.simps) (simp add: digit_char_props)
  qed
qed

lemma String_of_nat_nonempty: "String_of_nat n \<noteq> []"
  by (subst String_of_nat.simps) simp

lemma String_of_nat_hd_digit: "\<exists>d < 10. \<exists>rest. String_of_nat n = digit_char d # rest"
proof (induction n rule: String_of_nat.induct)
  case (1 n)
  show ?case
  proof (cases "n < 10")
    case True
    then show ?thesis by (subst String_of_nat.simps) auto
  next
    case False
    with 1 obtain d rest where "d < 10" "String_of_nat (n div 10) = digit_char d # rest" by blast
    with False show ?thesis by (subst String_of_nat.simps) auto
  qed
qed

lemma digits_value_snoc: "digits_value (ds @ [c]) = 10 * digits_value ds + digit_val c"
  by (simp add: digits_value_def)

lemma digits_value_String_of_nat: "digits_value (String_of_nat n) = n"
proof (induction n rule: String_of_nat.induct)
  case (1 n)
  show ?case
  proof (cases "n < 10")
    case True
    then show ?thesis
      by (subst String_of_nat.simps) (simp add: digits_value_def digit_char_props)
  next
    case False
    with 1 have "digits_value (String_of_nat (n div 10)) = n div 10" by simp
    with False show ?thesis
      by (subst String_of_nat.simps) (simp add: digits_value_snoc digit_char_props)
  qed
qed

lemma is_digit_plain:
  assumes "is_digit c"
  shows "\<not> js_whitespace c" and "c \<noteq> CHR ''-''" and "c \<noteq> CHR ''+''"
  using assms by (auto simp: is_digit_def js_whitespace_def)

lemma parseInt_digits:
  assumes "ds \<noteq> []" and "\<forall>c \<in> set ds. is_digit c"
  shows "parseInt ds = Some (int (digits_value ds))"
proof -
  from assms(1) obtain c rest where ds: "ds = c # rest" by (cases ds) auto
  with assms(2) have c: "is_digit c" by simp
  have trimmed: "dropWhile js_whitespace ds = ds"
    using ds is_digit_plain(1) [OF c] by simp
  have tw: "takeWhile is_digit ds = ds"
    using assms(2) by (simp add: takeWhile_eq_all_conv)
  have sign: "(case ds of c # _ \<Rightarrow> c = CHR ''-'' | [] \<Rightarrow> False) = False"
    using ds is_digit_plain(2) [OF c] by simp
  have unsigned: "(case ds of c # rest \<Rightarrow> if c = CHR ''-'' \<or> c = CHR ''+'' then rest else ds
                   | [] \<Rightarrow> []) = ds"
    using ds is_digit_plain(2,3) [OF c] by simp
  show ?thesis
    unfolding parseInt_def trimmed Let_def sign unfolding unsigned tw
    using assms(1) by simp
qed

lemma parseInt_String_of_nat: "parseInt (String_of_nat n) = Some (int n)"
  using parseInt_digits [OF String_of_nat_nonempty String_of_nat_digits, of n]
  by (simp add: digits_value_String_of_nat)

section \<open>Properties of the content query\<close>

lemma get_property_not_null:
  "body \<noteq> JNull \<Longrightarrow> \<exists>v. get_property body key = Inr v"
  by (cases body) simp_all

lemma null_read_message_nonempty: "null_read_message key \<noteq> []"
  by (simp add: null_read_message_def)

lemma executeQuranQuery_unset:
  assumes "falsy_string api_url"
  shows "executeQuranQuery api_url net q ps =
           Inr \<lparr>success = False, query_data = Some JNull, count = Some (JNumber 0),
                error = Some (JString ''Missing EXPO_PUBLIC_QURAN_API_BASE_URL'')\<rparr>"
  using assms by (auto simp: executeQuranQuery_def falsy_string_def split: option.splits)

lemma executeQuranQuery_caught:
  assumes "api_url = Some base" "base \<noteq> []"
    and "executeQuranQuery_try base net q ps = Inl e"
  shows "executeQuranQuery api_url net q ps =
           Inr \<lparr>success = False, query_data = Some JNull, count = Some (JNumber 0),
                error = Some (JString (case e of Error_obj m \<Rightarrow> m | Non_error \<Rightarrow> ''Network error''))\<rparr>"
  using assms by (simp add: executeQuranQuery_def)

lemma executeQuranQuery_returned:
  assumes "api_url = Some base" "base \<noteq> []"
    and "executeQuranQuery_try base net q ps = Inr r"
  shows "executeQuranQuery api_url net q ps = Inr r"
  using assms by (simp add: executeQuranQuery_def)

text \<open>
  What \<^verbatim>\<open>executeQuranQuery\<close> returns, in every case. It never throws. When the response
  body reports success, it returns \<^verbatim>\<open>success = true\<close> with the body's \<^verbatim>\<open>data\<close> and
  \<^verbatim>\<open>count\<close>. Otherwise it returns \<^verbatim>\<open>success = false\<close>, \<^verbatim>\<open>data = null\<close> and \<^verbatim>\<open>count = 0\<close>, with
  an error that is truthy unless the \<^verbatim>\<open>try\<close> block threw an \<^verbatim>\<open>Error\<close> whose message is empty.
\<close>

lemma executeQuranQuery_result:
  "\<exists>r. executeQuranQuery api_url net q ps = Inr r \<and>
     (case reported_body api_url net q ps of
        Some body \<Rightarrow>
          if body_success body
          then success r \<and>
               get_property body ''data'' = Inr (query_data r) \<and>
               get_property body ''count'' = Inr (count r)
          else \<not> success r \<and> query_data r = Some JNull \<and> count r = Some (JNumber 0) \<and>
               truthy (error r)
      | None \<Rightarrow>
          \<not> success r \<and> query_data r = Some JNull \<and> count r = Some (JNumber 0) \<and>
          (truthy (error r) \<or>
           error r = Some (JString []) \<and>
           (\<exists>base. api_url = Some base \<and> base \<noteq> [] \<and>
              executeQuranQuery_try base net q ps = Inl (Error_obj []))))"
proof (cases "falsy_string api_url")
  case True
  then have "reported_body api_url net q ps = None"
    by (auto simp: reported_body_def falsy_string_def split: option.splits)
  with executeQuranQuery_unset [OF True, of net q ps] show ?thesis by simp
next
  case False
  then obtain base where base: "api_url = Some base" "base \<noteq> []"
    by (auto simp: falsy_string_def split: option.splits)
  show ?thesis
  proof (cases "stringify_params ps")
    case (Inl e)
    then have tried: "executeQuranQuery_try base net q ps = Inl e"
      by (simp add: executeQuranQuery_try_def)
    have none: "reported_body api_url net q ps = None"
      using base Inl by (simp add: reported_body_def)
    show ?thesis
      using executeQuranQuery_caught [OF base tried] none base tried
      by (cases e) auto
  next
    case written: (Inr body_params)
    let ?req = "\<lparr>query_url = base @ ''/api/quran/query'', sql = q, params = body_params\<rparr>"
    show ?thesis
    proof (cases "net ?req")
      case (Inl e)
      then have tried: "executeQuranQuery_try base net q ps = Inl e"
        using written by (simp add: executeQuranQuery_try_def)
      have none: "reported_body api_url net q ps = None"
        using base written Inl by (simp add: reported_body_def)
      show ?thesis
        using executeQuranQuery_caught [OF base tried] none base tried
        by (cases e) auto
    next
      case (Inr response)
      show ?thesis
      proof (cases response)
        case (Inl e)
        then have tried: "executeQuranQuery_try base net q ps = Inl e"
          using written Inr by (simp add: executeQuranQuery_try_def)
        have none: "reported_body api_url net q ps = None"
          using base written Inr Inl by (simp add: reported_body_def)
        show ?thesis
          using executeQuranQuery_caught [OF base tried] none base tried
          by (cases e) auto
      next
        case body: (Inr body)
        have some: "reported_body api_url net q ps = Some body"
          using base written Inr body by (simp add: reported_body_def)
        show ?thesis
        proof (cases "body = JNull")
          case True
          then have tried: "executeQuranQuery_try base net q ps =
              Inl (Error_obj (null_read_message ''success''))"
            using written Inr body by (simp add: executeQuranQuery_try_def)
          have "\<not> body_success body" using True by (simp add: body_success_def)
          then show ?thesis
            using executeQuranQuery_caught [OF base tried] some null_read_message_nonempty
            by simp
        next
          case False
          obtain s d c m where props: "get_property body ''success'' = Inr s"
            "get_property body ''data'' = Inr d" "get_property body ''count'' = Inr c"
            "get_property body ''message'' = Inr m"
            using get_property_not_null [OF False] by metis
          show ?thesis
          proof (cases "truthy s")
            case True
            then have tried: "executeQuranQuery_try base net q ps =
                Inr \<lparr>success = True, query_data = d, count = c, error = None\<rparr>"
              using written Inr body props by (simp add: executeQuranQuery_try_def)
            have "body_success body" using True props by (simp add: body_success_def)
            then show ?thesis
              using executeQuranQuery_returned [OF base tried] some props by simp
          next
            case nt: False
            then have tried: "executeQuranQuery_try base net q ps =
                Inr \<lparr>success = False, query_data = Some JNull, count = Some (JNumber 0),
                     error = (if truthy m then m else Some (JString ''Query failed''))\<rparr>"
              using written Inr body props by (simp add: executeQuranQuery_try_def)
            have "\<not> body_success body" using nt props by (simp add: body_success_def)
            then show ?thesis
              using executeQuranQuery_returned [OF base tried] some by simp
          qed
        qed
      qed
    qed
  qed
qed


section \<open>Properties of the verse-timing search\<close>

lemma findCurrentVerseTiming_None:
  "findCurrentVerseTiming t ts = None \<longleftrightarrow>
     (\<forall>x \<in> set ts. \<not> (timestamp_from x \<le> t \<and> t < timestamp_to x))"
  by (induction ts) auto

lemma findCurrentVerseTiming_Some:
  "findCurrentVerseTiming t ts = Some r \<longleftrightarrow>
     (\<exists>i < length ts. ts ! i = r \<and> timestamp_from r \<le> t \<and> t < timestamp_to r \<and>
        (\<forall>j < i. \<not> (timestamp_from (ts ! j) \<le> t \<and> t < timestamp_to (ts ! j))))"
proof (induction ts)
  case Nil
  show ?case by simp
next
  case (Cons x xs)
  show ?case
  proof (cases "timestamp_from x \<le> t \<and> t < timestamp_to x")
    case True
    have "(\<exists>i < length (x # xs). (x # xs) ! i = r \<and> timestamp_from r \<le> t \<and> t < timestamp_to r \<and>
        (\<forall>j < i. \<not> (timestamp_from ((x # xs) ! j) \<le> t \<and> t < timestamp_to ((x # xs) ! j))))
        \<longleftrightarrow> x = r"
    proof
      assume "\<exists>i < length (x # xs). (x # xs) ! i = r \<and> timestamp_from r \<le> t \<and> t < timestamp_to r \<and>
        (\<forall>j < i. \<not> (timestamp_from ((x # xs) ! j) \<le> t \<and> t < timestamp_to ((x # xs) ! j)))"
      then obtain i where i: "(x # xs) ! i = r"
        "\<forall>j < i. \<not> (timestamp_from ((x # xs) ! j) \<le> t \<and> t < timestamp_to ((x # xs) ! j))"
        by blast
      have "i = 0"
      proof (rule ccontr)
        assume "i \<noteq> 0"
        then have "0 < i" by simp
        with i(2) have "\<not> (timestamp_from ((x # xs) ! 0) \<le> t \<and> t < timestamp_to ((x # xs) ! 0))"
          by blast
        with True show False by simp
      qed
      with i(1) show "x = r" by simp
    next
      assume "x = r"
      with True show "\<exists>i < length (x # xs). (x # xs) ! i = r \<and> timestamp_from r \<le> t \<and> t < timestamp_to r \<and>
        (\<forall>j < i. \<not> (timestamp_from ((x # xs) ! j) \<le> t \<and> t < timestamp_to ((x # xs) ! j)))"
        by (intro exI [of _ 0]) simp
    qed
    with True show ?thesis by simp
  next
    case False
    have "(\<exists>i < length (x # xs). (x # xs) ! i = r \<and> timestamp_from r \<le> t \<and> t < timestamp_to r \<and>
        (\<forall>j < i. \<not> (timestamp_from ((x # xs) ! j) \<le> t \<and> t < timestamp_to ((x # xs) ! j))))
        \<longleftrightarrow>
       (\<exists>i < length xs. xs ! i = r \<and> timestamp_from r \<le> t \<and> t < timestamp_to r \<and>
        (\<forall>j < i. \<not> (timestamp_from (xs ! j) \<le> t \<and> t < timestamp_to (xs ! j))))"
      (is "?L \<longleftrightarrow> ?R")
    proof
      assume ?L
      then obtain i where i: "i < length (x # xs)" "(x # xs) ! i = r"
        "timestamp_from r \<le> t \<and> t < timestamp_to r"
        "\<forall>j < i. \<not> (timestamp_from ((x # xs) ! j) \<le> t \<and> t < timestamp_to ((x # xs) ! j))"
        by blast
      from i(2,3) False have "i \<noteq> 0" by (cases i) auto
      then obtain k where k: "i = Suc k" by (cases i) auto
      have "\<forall>j < k. \<not> (timestamp_from (xs ! j) \<le> t \<and> t < timestamp_to (xs ! j))"
      proof (intro allI impI)
        fix j assume "j < k"
        then have "Suc j < i" using k by simp
        with i(4) have "\<not> (timestamp_from ((x # xs) ! Suc j) \<le> t \<and> t < timestamp_to ((x # xs) ! Suc j))"
          by blast
        then show "\<not> (timestamp_from (xs ! j) \<le> t \<and> t < timestamp_to (xs ! j))" by simp
      qed
      with i k show ?R by (intro exI [of _ k]) simp
    next
      assume ?R
      then obtain k where k: "k < length xs" "xs ! k = r"
        "timestamp_from r \<le> t \<and> t < timestamp_to r"
        "\<forall>j < k. \<not> (timestamp_from (xs ! j) \<le> t \<and> t < timestamp_to (xs ! j))"
        by blast
      have "\<forall>j < Suc k. \<not> (timestamp_from ((x # xs) ! j) \<le> t \<and> t < timestamp_to ((x # xs) ! j))"
      proof (intro allI impI)
        fix j assume j: "j < Suc k"
        show "\<not> (timestamp_from ((x # xs) ! j) \<le> t \<and> t < timestamp_to ((x # xs) ! j))"
        proof (cases j)
          case 0
          with False show ?thesis by simp
        next
          case (Suc m)
          with j k(4) show ?thesis by simp
        qed
      qed
      with k show ?L by (intro exI [of _ "Suc k"]) simp
    qed
    moreover have "findCurrentVerseTiming t (x # xs) = findCurrentVerseTiming t xs"
      using False by auto
    ultimately show ?thesis using Cons.IH by (simp only:)
  qed
qed

text \<open>
  C3. For every playback time and every list of verse timings,
  \<^verbatim>\<open>findCurrentVerseTiming\<close> returns the first timing in list order whose interval
  holds the time (\<open>timestamp_from \<le> t < timestamp_to\<close>): the timing at some index
  such that no earlier index holds the time. It returns \<^verbatim>\<open>null\<close> exactly when no
  timing of the list holds the time.
\<close>

theorem findCurrentVerseTiming_first_match:
  "(findCurrentVerseTiming t ts = None \<longleftrightarrow>
      (\<forall>x \<in> set ts. \<not> (timestamp_from x \<le> t \<and> t < timestamp_to x))) \<and>
   (\<forall>r. findCurrentVerseTiming t ts = Some r \<longleftrightarrow>
      (\<exists>i < length ts. ts ! i = r \<and> timestamp_from r \<le> t \<and> t < timestamp_to r \<and>
        (\<forall>j < i. \<not> (timestamp_from (ts ! j) \<le> t \<and> t < timestamp_to (ts ! j)))))"
  using findCurrentVerseTiming_None [of t ts] findCurrentVerseTiming_Some [of t ts]
  by blast

theorem findCurrentVerseTiming_first_match_witness:
  "findCurrentVerseTiming 1500
     [\<lparr>verse_key = ''1:1'', timestamp_from = 0, timestamp_to = 1000, segments = []\<rparr>,
      \<lparr>verse_key = ''1:2'', timestamp_from = 1200, timestamp_to = 2000, segments = []\<rparr>]
     = Some \<lparr>verse_key = ''1:2'', timestamp_from = 1200, timestamp_to = 2000, segments = []\<rparr>
   \<and> findCurrentVerseTiming 1100
     [\<lparr>verse_key = ''1:1'', timestamp_from = 0, timestamp_to = 1000, segments = []\<rparr>,
      \<lparr>verse_key = ''1:2'', timestamp_from = 1200, timestamp_to = 2000, segments = []\<rparr>]
     = None
   \<and> findCurrentVerseTiming 2000
     [\<lparr>verse_key = ''1:1'', timestamp_from = 0, timestamp_to = 1000, segments = []\<rparr>,
      \<lparr>verse_key = ''1:2'', timestamp_from = 1200, timestamp_to = 2000, segments = []\<rparr>]
     = None"
  using findCurrentVerseTiming_first_match [of 1500
     "[\<lparr>verse_key = ''1:1'', timestamp_from = 0, timestamp_to = 1000, segments = []\<rparr>,
       \<lparr>verse_key = ''1:2'', timestamp_from = 1200, timestamp_to = 2000, segments = []\<rparr>]"]
    findCurrentVerseTiming_first_match [of 1100
     "[\<lparr>verse_key = ''1:1'', timestamp_from = 0, timestamp_to = 1000, segments = []\<rparr>,
       \<lparr>verse_key = ''1:2'', timestamp_from = 1200, timestamp_to = 2000, segments = []\<rparr>]"]
    findCurrentVerseTiming_first_match [of 2000
     "[\<lparr>verse_key = ''1:1'', timestamp_from = 0, timestamp_to = 1000, segments = []\<rparr>,
       \<lparr>verse_key = ''1:2'', timestamp_from = 1200, timestamp_to = 2000, segments = []\<rparr>]"]
  by simp

section \<open>Properties of the audio fetch\<close>

text \<open>
  C10. \<^verbatim>\<open>fetchSurahAudio\<close> throws for every surah number below 1 or above 114, and
  when the Supabase URL or key is missing, and in those cases the request log is
  unchanged: no network request is made. Conversely, whenever the log grows, the
  configuration is present and the surah number has passed the range check: both checks
  come before any fetch.
\<close>

theorem fetchSurahAudio_guards:
  "((falsy_string (SUPABASE_URL env) \<or> falsy_string (SUPABASE_ANON_KEY env) \<or>
     surahId < 1 \<or> surahId > 114) \<longrightarrow>
      (\<exists>msg. fst (fetchSurahAudio env net surahId reciterId reqs) = Inl (Error_obj msg)) \<and>
      snd (fetchSurahAudio env net surahId reciterId reqs) = reqs) \<and>
   (snd (fetchSurahAudio env net surahId reciterId reqs) \<noteq> reqs \<longrightarrow>
      \<not> falsy_string (SUPABASE_URL env) \<and> \<not> falsy_string (SUPABASE_ANON_KEY env) \<and>
      \<not> (surahId < 1 \<or> surahId > 114))"
  by (auto simp: fetchSurahAudio_def Let_def falsy_string_def split: option.splits)

theorem fetchSurahAudio_guards_witness:
  "(0::int) < 1 \<and>
   fetchSurahAudio \<lparr>SUPABASE_URL = Some ''https://x.supabase.co'', SUPABASE_ANON_KEY = Some ''k''\<rparr>
     (\<lambda>_. Inl Non_error) 0 None [] =
     (Inl (Error_obj ''Invalid surah ID: 0. Must be between 1 and 114.''), []) \<and>
   fetchSurahAudio \<lparr>SUPABASE_URL = Some ''https://x.supabase.co'', SUPABASE_ANON_KEY = Some ''k''\<rparr>
     (\<lambda>_. Inl Non_error) 115 None [] =
     (Inl (Error_obj ''Invalid surah ID: 115. Must be between 1 and 114.''), []) \<and>
   fetchSurahAudio \<lparr>SUPABASE_URL = None, SUPABASE_ANON_KEY = Some ''k''\<rparr>
     (\<lambda>_. Inl Non_error) 5 None [] =
     (Inl (Error_obj ''Missing EXPO_PUBLIC_SUPABASE_URL or EXPO_PUBLIC_SUPABASE_PUBLISHABLE_KEY''), []) \<and>
   snd (fetchSurahAudio \<lparr>SUPABASE_URL = Some ''https://x.supabase.co'', SUPABASE_ANON_KEY = Some ''k''\<rparr>
     (\<lambda>_. Inl Non_error) 5 None []) =
     [\<lparr>url = ''https://x.supabase.co/functions/v1/quran-audio-proxy?reciterId=7&chapter=5'',
       apikey = ''k''\<rparr>]"
  using fetchSurahAudio_guards [of "\<lparr>SUPABASE_URL = Some ''https://x.supabase.co'', SUPABASE_ANON_KEY = Some ''k''\<rparr>"
          0 "\<lambda>_. Inl Non_error" None "[]"]
        fetchSurahAudio_guards [of "\<lparr>SUPABASE_URL = Some ''https://x.supabase.co'', SUPABASE_ANON_KEY = Some ''k''\<rparr>"
          115 "\<lambda>_. Inl Non_error" None "[]"]
        fetchSurahAudio_guards [of "\<lparr>SUPABASE_URL = None, SUPABASE_ANON_KEY = Some ''k''\<rparr>"
          5 "\<lambda>_. Inl Non_error" None "[]"]
        fetchSurahAudio_guards [of "\<lparr>SUPABASE_URL = Some ''https://x.supabase.co'', SUPABASE_ANON_KEY = Some ''k''\<rparr>"
          5 "\<lambda>_. Inl Non_error" None "[]"]
  by (simp add: fetchSurahAudio_def falsy_string_def String_of_int_def String_of_nat.simps digit_char_def MISHARY_ALAFASY_def)

section \<open>Properties of single-verse playback\<close>

lemma status_at_boundary_pauses:
  assumes "singleVerseEndTime st = Some e" and "e \<le> positionMillis s"
  shows "sound_commands (onPlaybackStatusUpdate (Is_loaded s) st) = sound_commands st @ [PauseAsync]"
    and "playbackState (onPlaybackStatusUpdate (Is_loaded s) st) = Paused"
    and "\<not> isSingleVerseMode (onPlaybackStatusUpdate (Is_loaded s) st)"
    and "singleVerseEndTime (onPlaybackStatusUpdate (Is_loaded s) st) = None"
  using assms
  by (simp_all add: onPlaybackStatusUpdate_def Let_def split: option.splits)

lemma status_below_boundary_keeps:
  assumes "singleVerseEndTime st = Some e" and "positionMillis s < e"
  shows "singleVerseEndTime (onPlaybackStatusUpdate (Is_loaded s) st) = Some e"
    and "sound_commands (onPlaybackStatusUpdate (Is_loaded s) st) = sound_commands st"
    and "isSingleVerseMode (onPlaybackStatusUpdate (Is_loaded s) st) = isSingleVerseMode st"
  using assms
  by (simp_all add: onPlaybackStatusUpdate_def Let_def split: option.splits)

lemma status_without_boundary:
  assumes "singleVerseEndTime st = None"
  shows "singleVerseEndTime (onPlaybackStatusUpdate playback_status st) = None"
    and "sound_commands (onPlaybackStatusUpdate playback_status st) = sound_commands st"
    and "isSingleVerseMode (onPlaybackStatusUpdate playback_status st) = isSingleVerseMode st"
  using assms
  by (cases playback_status; simp add: onPlaybackStatusUpdate_def Let_def split: option.splits)+

lemma status_playing_without_boundary:
  assumes "singleVerseEndTime st = None" and "isPlaying s"
  shows "playbackState (onPlaybackStatusUpdate (Is_loaded s) st) = Playing"
  using assms
  by (simp add: onPlaybackStatusUpdate_def Let_def split: option.splits)

lemma playVerse_until_setPosition_timing:
  assumes "fst (playVerse_until_setPosition surahId verseNumber st) = Awaiting_setPosition timing"
  shows "getVerseTimingByNumber surahId verseNumber (cur_verseTimings st) = Some timing"
  using assms
  by (auto simp: playVerse_until_setPosition_def Let_def ensureSound_def
        split: if_splits option.splits)

lemma resume_until_play_clears:
  assumes "sound_created st" and "\<not> falsy_string (cur_audioUrl st)"
  shows "fst (resume_until_play st) = Resume_awaiting_play"
    and "singleVerseEndTime (snd (resume_until_play st)) = None"
    and "\<not> isSingleVerseMode (snd (resume_until_play st))"
    and "sound_commands (snd (resume_until_play st)) = sound_commands st @ [PlayAsync]"
  using assms
  by (simp_all add: resume_until_play_def Let_def clearVerseEndBoundary_def)

text \<open>
  C5 (as amended). When \<^verbatim>\<open>playVerse\<close> awaits \<^verbatim>\<open>setPositionAsync\<close>, it does so with the timing
  that \<^verbatim>\<open>getVerseTimingByNumber\<close> finds for the verse; when \<^verbatim>\<open>setPositionAsync\<close> has
  resolved it sets single-verse mode and the end boundary, which is the \<^verbatim>\<open>timestamp_to\<close> of
  that timing, and calls \<^verbatim>\<open>playAsync\<close>. In every state in which the boundary is set:
  \<^item> a status update of a loaded sound whose position is at or past the boundary calls
    \<^verbatim>\<open>pauseAsync\<close>, sets the playback state to paused, and clears single-verse mode and
    the boundary;
  \<^item> a status update of a loaded sound whose position is below the boundary keeps the
    boundary and single-verse mode and calls nothing on the sound; a status that is not
    loaded changes nothing; the resolution of \<^verbatim>\<open>playAsync\<close> keeps the boundary and the
    mode.

  The boundary does not always stay set until it is reached: the rejection of
  \<^verbatim>\<open>playAsync\<close> in \<^verbatim>\<open>playVerse\<close>, \<^verbatim>\<open>pause()\<close> with a sound, \<^verbatim>\<open>resume()\<close> with a sound and an
  audio URL, and \<^verbatim>\<open>stop()\<close> clear it, \<^verbatim>\<open>pause()\<close> and the rejection leaving single-verse mode
  as it is. In every state in which the boundary is not set, a status update calls nothing on
  the sound, leaves the boundary unset and single-verse mode as it is, and sets the
  playback state to playing when the status says so, wherever the position is.
\<close>

theorem single_verse_boundary_pauses:
  "(fst (playVerse_until_setPosition surahId verseNumber st_called) = Awaiting_setPosition timing \<longrightarrow>
      getVerseTimingByNumber surahId verseNumber (cur_verseTimings st_called) = Some timing) \<and>
   fst (playVerse_after_setPosition True timing st) = Awaiting_play \<and>
   singleVerseEndTime (snd (playVerse_after_setPosition True timing st)) =
     Some (timestamp_to timing) \<and>
   isSingleVerseMode (snd (playVerse_after_setPosition True timing st)) \<and>
   sound_commands (snd (playVerse_after_setPosition True timing st)) =
     sound_commands st @ [PlayAsync] \<and>
   (singleVerseEndTime st = Some e \<and> e \<le> positionMillis s \<longrightarrow>
      sound_commands (onPlaybackStatusUpdate (Is_loaded s) st) = sound_commands st @ [PauseAsync] \<and>
      playbackState (onPlaybackStatusUpdate (Is_loaded s) st) = Paused \<and>
      \<not> isSingleVerseMode (onPlaybackStatusUpdate (Is_loaded s) st) \<and>
      singleVerseEndTime (onPlaybackStatusUpdate (Is_loaded s) st) = None) \<and>
   (singleVerseEndTime st = Some e \<and> positionMillis s < e \<longrightarrow>
      singleVerseEndTime (onPlaybackStatusUpdate (Is_loaded s) st) = Some e \<and>
      isSingleVerseMode (onPlaybackStatusUpdate (Is_loaded s) st) = isSingleVerseMode st \<and>
      sound_commands (onPlaybackStatusUpdate (Is_loaded s) st) = sound_commands st) \<and>
   onPlaybackStatusUpdate Not_loaded st = st \<and>
   singleVerseEndTime (playVerse_after_play True st) = singleVerseEndTime st \<and>
   isSingleVerseMode (playVerse_after_play True st) = isSingleVerseMode st \<and>
   singleVerseEndTime (playVerse_after_play False st) = None \<and>
   isSingleVerseMode (playVerse_after_play False st) = isSingleVerseMode st \<and>
   (sound_created st \<longrightarrow>
      singleVerseEndTime (pause st) = None \<and>
      isSingleVerseMode (pause st) = isSingleVerseMode st) \<and>
   (sound_created st \<and> \<not> falsy_string (cur_audioUrl st) \<longrightarrow>
      fst (resume_until_play st) = Resume_awaiting_play \<and>
      singleVerseEndTime (snd (resume_until_play st)) = None) \<and>
   singleVerseEndTime (stop st) = None \<and>
   (singleVerseEndTime st = None \<longrightarrow>
      sound_commands (onPlaybackStatusUpdate playback_status st) = sound_commands st \<and>
      singleVerseEndTime (onPlaybackStatusUpdate playback_status st) = None \<and>
      isSingleVerseMode (onPlaybackStatusUpdate playback_status st) = isSingleVerseMode st \<and>
      (isPlaying s \<longrightarrow> playbackState (onPlaybackStatusUpdate (Is_loaded s) st) = Playing))"
proof -
  have a: "fst (playVerse_until_setPosition surahId verseNumber st_called) = Awaiting_setPosition timing \<longrightarrow>
      getVerseTimingByNumber surahId verseNumber (cur_verseTimings st_called) = Some timing"
    by (simp add: playVerse_until_setPosition_timing)
  have b: "fst (playVerse_after_setPosition True timing st) = Awaiting_play"
    "singleVerseEndTime (snd (playVerse_after_setPosition True timing st)) =
       Some (timestamp_to timing)"
    "isSingleVerseMode (snd (playVerse_after_setPosition True timing st))"
    "sound_commands (snd (playVerse_after_setPosition True timing st)) =
       sound_commands st @ [PlayAsync]"
    by (simp_all add: playVerse_after_setPosition_def)
  have c: "singleVerseEndTime st = Some e \<and> e \<le> positionMillis s \<longrightarrow>
      sound_commands (onPlaybackStatusUpdate (Is_loaded s) st) = sound_commands st @ [PauseAsync] \<and>
      playbackState (onPlaybackStatusUpdate (Is_loaded s) st) = Paused \<and>
      \<not> isSingleVerseMode (onPlaybackStatusUpdate (Is_loaded s) st) \<and>
      singleVerseEndTime (onPlaybackStatusUpdate (Is_loaded s) st) = None"
    using status_at_boundary_pauses [of st e s] by blast
  have d: "singleVerseEndTime st = Some e \<and> positionMillis s < e \<longrightarrow>
      singleVerseEndTime (onPlaybackStatusUpdate (Is_loaded s) st) = Some e \<and>
      isSingleVerseMode (onPlaybackStatusUpdate (Is_loaded s) st) = isSingleVerseMode st \<and>
      sound_commands (onPlaybackStatusUpdate (Is_loaded s) st) = sound_commands st"
    using status_below_boundary_keeps [of st e s] by blast
  have e: "onPlaybackStatusUpdate Not_loaded st = st"
    "singleVerseEndTime (playVerse_after_play True st) = singleVerseEndTime st"
    "isSingleVerseMode (playVerse_after_play True st) = isSingleVerseMode st"
    "singleVerseEndTime (playVerse_after_play False st) = None"
    "isSingleVerseMode (playVerse_after_play False st) = isSingleVerseMode st"
    by (simp_all add: onPlaybackStatusUpdate_def playVerse_after_play_def)
  have f: "sound_created st \<longrightarrow>
      singleVerseEndTime (pause st) = None \<and>
      isSingleVerseMode (pause st) = isSingleVerseMode st"
    by (simp add: pause_def clearVerseEndBoundary_def)
  have g: "sound_created st \<and> \<not> falsy_string (cur_audioUrl st) \<longrightarrow>
      fst (resume_until_play st) = Resume_awaiting_play \<and>
      singleVerseEndTime (snd (resume_until_play st)) = None"
    using resume_until_play_clears [of st] by blast
  have h: "singleVerseEndTime (stop st) = None"
    by (simp add: stop_def Let_def clearVerseEndBoundary_def)
  have i: "singleVerseEndTime st = None \<longrightarrow>
      sound_commands (onPlaybackStatusUpdate playback_status st) = sound_commands st \<and>
      singleVerseEndTime (onPlaybackStatusUpdate playback_status st) = None \<and>
      isSingleVerseMode (onPlaybackStatusUpdate playback_status st) = isSingleVerseMode st \<and>
      (isPlaying s \<longrightarrow> playbackState (onPlaybackStatusUpdate (Is_loaded s) st) = Playing)"
    using status_without_boundary [of st playback_status]
      status_playing_without_boundary [of st s] by blast
  from a b c d e f g h i show ?thesis by blast
qed

theorem single_verse_boundary_pauses_witness:
  "fst (playVerse_until_setPosition 1 2 (initial_audio_state\<lparr>cur_audioUrl := Some
     ''https://cdn/001.mp3'', currentChapterId := Some 1, cur_verseTimings := [\<lparr>verse_key
     = ''1:1'', timestamp_from = 0, timestamp_to = 1000, segments = []\<rparr>,
     \<lparr>verse_key = ''1:2'', timestamp_from = 1000, timestamp_to = 2500, segments =
     []\<rparr>]\<rparr>)) = Awaiting_setPosition \<lparr>verse_key = ''1:2'', timestamp_from =
     1000, timestamp_to = 2500, segments = []\<rparr> \<and>
   getVerseTimingByNumber 1 2 (cur_verseTimings (initial_audio_state\<lparr>cur_audioUrl := Some
     ''https://cdn/001.mp3'', currentChapterId := Some 1, cur_verseTimings := [\<lparr>verse_key
     = ''1:1'', timestamp_from = 0, timestamp_to = 1000, segments = []\<rparr>,
     \<lparr>verse_key = ''1:2'', timestamp_from = 1000, timestamp_to = 2500, segments =
     []\<rparr>]\<rparr>)) = Some \<lparr>verse_key = ''1:2'', timestamp_from = 1000,
     timestamp_to = 2500, segments = []\<rparr> \<and>
   singleVerseEndTime (playVerse_after_play True (snd (playVerse_after_setPosition True
     \<lparr>verse_key = ''1:2'', timestamp_from = 1000, timestamp_to = 2500, segments =
     []\<rparr> (snd (playVerse_until_setPosition 1 2 (initial_audio_state\<lparr>cur_audioUrl
     := Some ''https://cdn/001.mp3'', currentChapterId := Some 1, cur_verseTimings :=
     [\<lparr>verse_key = ''1:1'', timestamp_from = 0, timestamp_to = 1000, segments =
     []\<rparr>, \<lparr>verse_key = ''1:2'', timestamp_from = 1000, timestamp_to = 2500,
     segments = []\<rparr>]\<rparr>)))))) = Some 2500 \<and>
   playbackState (onPlaybackStatusUpdate (Is_loaded \<lparr>positionMillis = 2500,
     durationMillis = Some 9000, isPlaying = True, didJustFinish = False\<rparr>)
     (playVerse_after_play True (snd (playVerse_after_setPosition True \<lparr>verse_key =
     ''1:2'', timestamp_from = 1000, timestamp_to = 2500, segments = []\<rparr> (snd
     (playVerse_until_setPosition 1 2 (initial_audio_state\<lparr>cur_audioUrl := Some
     ''https://cdn/001.mp3'', currentChapterId := Some 1, cur_verseTimings := [\<lparr>verse_key
     = ''1:1'', timestamp_from = 0, timestamp_to = 1000, segments = []\<rparr>,
     \<lparr>verse_key = ''1:2'', timestamp_from = 1000, timestamp_to = 2500, segments =
     []\<rparr>]\<rparr>))))))) = Paused \<and>
   sound_commands (onPlaybackStatusUpdate (Is_loaded \<lparr>positionMillis = 2500,
     durationMillis = Some 9000, isPlaying = True, didJustFinish = False\<rparr>)
     (playVerse_after_play True (snd (playVerse_after_setPosition True \<lparr>verse_key =
     ''1:2'', timestamp_from = 1000, timestamp_to = 2500, segments = []\<rparr> (snd
     (playVerse_until_setPosition 1 2 (initial_audio_state\<lparr>cur_audioUrl := Some
     ''https://cdn/001.mp3'', currentChapterId := Some 1, cur_verseTimings := [\<lparr>verse_key
     = ''1:1'', timestamp_from = 0, timestamp_to = 1000, segments = []\<rparr>,
     \<lparr>verse_key = ''1:2'', timestamp_from = 1000, timestamp_to = 2500, segments =
     []\<rparr>]\<rparr>))))))) = [SetPositionAsync 1000, PlayAsync, PauseAsync] \<and>
   singleVerseEndTime (onPlaybackStatusUpdate (Is_loaded \<lparr>positionMillis = 1700,
     durationMillis = Some 9000, isPlaying = True, didJustFinish = False\<rparr>)
     (playVerse_after_play True (snd (playVerse_after_setPosition True \<lparr>verse_key =
     ''1:2'', timestamp_from = 1000, timestamp_to = 2500, segments = []\<rparr> (snd
     (playVerse_until_setPosition 1 2 (initial_audio_state\<lparr>cur_audioUrl := Some
     ''https://cdn/001.mp3'', currentChapterId := Some 1, cur_verseTimings := [\<lparr>verse_key
     = ''1:1'', timestamp_from = 0, timestamp_to = 1000, segments = []\<rparr>,
     \<lparr>verse_key = ''1:2'', timestamp_from = 1000, timestamp_to = 2500, segments =
     []\<rparr>]\<rparr>))))))) = Some 2500 \<and>
   singleVerseEndTime (pause (playVerse_after_play True (snd (playVerse_after_setPosition True
     \<lparr>verse_key = ''1:2'', timestamp_from = 1000, timestamp_to = 2500, segments =
     []\<rparr> (snd (playVerse_until_setPosition 1 2 (initial_audio_state\<lparr>cur_audioUrl
     := Some ''https://cdn/001.mp3'', currentChapterId := Some 1, cur_verseTimings :=
     [\<lparr>verse_key = ''1:1'', timestamp_from = 0, timestamp_to = 1000, segments =
     []\<rparr>, \<lparr>verse_key = ''1:2'', timestamp_from = 1000, timestamp_to = 2500,
     segments = []\<rparr>]\<rparr>))))))) = None \<and>
   fst (resume_until_play (pause (playVerse_after_play True (snd (playVerse_after_setPosition
     True \<lparr>verse_key = ''1:2'', timestamp_from = 1000, timestamp_to = 2500, segments =
     []\<rparr> (snd (playVerse_until_setPosition 1 2 (initial_audio_state\<lparr>cur_audioUrl
     := Some ''https://cdn/001.mp3'', currentChapterId := Some 1, cur_verseTimings :=
     [\<lparr>verse_key = ''1:1'', timestamp_from = 0, timestamp_to = 1000, segments =
     []\<rparr>, \<lparr>verse_key = ''1:2'', timestamp_from = 1000, timestamp_to = 2500,
     segments = []\<rparr>]\<rparr>)))))))) = Resume_awaiting_play \<and>
   playbackState (onPlaybackStatusUpdate (Is_loaded \<lparr>positionMillis = 2600,
     durationMillis = Some 9000, isPlaying = True, didJustFinish = False\<rparr>) (pause
     (playVerse_after_play True (snd (playVerse_after_setPosition True \<lparr>verse_key =
     ''1:2'', timestamp_from = 1000, timestamp_to = 2500, segments = []\<rparr> (snd
     (playVerse_until_setPosition 1 2 (initial_audio_state\<lparr>cur_audioUrl := Some
     ''https://cdn/001.mp3'', currentChapterId := Some 1, cur_verseTimings := [\<lparr>verse_key
     = ''1:1'', timestamp_from = 0, timestamp_to = 1000, segments = []\<rparr>,
     \<lparr>verse_key = ''1:2'', timestamp_from = 1000, timestamp_to = 2500, segments =
     []\<rparr>]\<rparr>)))))))) = Playing"
proof -
  let ?t2 = "\<lparr>verse_key = ''1:2'', timestamp_from = 1000, timestamp_to = 2500, segments = []\<rparr>"
  let ?initial = "initial_audio_state\<lparr>cur_audioUrl := Some ''https://cdn/001.mp3'', currentChapterId := Some 1, cur_verseTimings := [\<lparr>verse_key = ''1:1'', timestamp_from = 0, timestamp_to = 1000, segments = []\<rparr>, \<lparr>verse_key = ''1:2'', timestamp_from = 1000, timestamp_to = 2500, segments = []\<rparr>]\<rparr>"
  let ?positioned = "snd (playVerse_until_setPosition 1 2 ?initial)"
  let ?started = "snd (playVerse_after_setPosition True ?t2 ?positioned)"
  let ?playing = "playVerse_after_play True ?started"
  let ?late = "\<lparr>positionMillis = 2500, durationMillis = Some 9000, isPlaying = True, didJustFinish = False\<rparr>"
  let ?early = "\<lparr>positionMillis = 1700, durationMillis = Some 9000, isPlaying = True, didJustFinish = False\<rparr>"
  let ?past = "\<lparr>positionMillis = 2600, durationMillis = Some 9000, isPlaying = True, didJustFinish = False\<rparr>"
  have found: "getVerseTimingByNumber 1 2 (cur_verseTimings ?initial) = Some ?t2"
    by (simp add: getVerseTimingByNumber_def initial_audio_state_def String_of_int_def
          String_of_nat.simps digit_char_def)
  have step: "fst (playVerse_until_setPosition 1 2 ?initial) = Awaiting_setPosition ?t2"
    using found
    by (simp add: playVerse_until_setPosition_def Let_def ensureSound_def initial_audio_state_def
          falsy_string_def)
  have positioned: "sound_created ?positioned" "sound_commands ?positioned = [SetPositionAsync 1000]"
    "cur_audioUrl ?positioned = Some ''https://cdn/001.mp3''"
    using found
    by (simp_all add: playVerse_until_setPosition_def Let_def ensureSound_def
          initial_audio_state_def falsy_string_def clearVerseEndBoundary_def)
  have playing: "singleVerseEndTime ?playing = Some 2500" "sound_created ?playing"
    "sound_commands ?playing = [SetPositionAsync 1000, PlayAsync]"
    "\<not> falsy_string (cur_audioUrl ?playing)"
    using positioned
    by (simp_all add: playVerse_after_setPosition_def playVerse_after_play_def falsy_string_def)
  have paused: "singleVerseEndTime (pause ?playing) = None" "sound_created (pause ?playing)"
    "\<not> falsy_string (cur_audioUrl (pause ?playing))"
    using playing by (simp_all add: pause_def clearVerseEndBoundary_def)
  note a = single_verse_boundary_pauses [where surahId = 1 and verseNumber = 2 and st_called = ?initial and
      timing = ?t2 and st = ?playing and e = 2500 and s = ?late]
  note b = single_verse_boundary_pauses [where surahId = 1 and verseNumber = 2 and st_called = ?initial and
      timing = ?t2 and st = ?playing and e = 2500 and s = ?early]
  note c = single_verse_boundary_pauses [where surahId = 1 and verseNumber = 2 and st_called = ?initial and
      timing = ?t2 and st = "pause ?playing" and e = 2500 and s = ?past]
  have 1: "getVerseTimingByNumber 1 2 (cur_verseTimings ?initial) = Some ?t2"
    using a step by blast
  have 2: "playbackState (onPlaybackStatusUpdate (Is_loaded ?late) ?playing) = Paused"
    "sound_commands (onPlaybackStatusUpdate (Is_loaded ?late) ?playing) =
       [SetPositionAsync 1000, PlayAsync, PauseAsync]"
    using a playing by simp_all
  have 3: "singleVerseEndTime (onPlaybackStatusUpdate (Is_loaded ?early) ?playing) = Some 2500"
    using b playing by simp
  have 4: "singleVerseEndTime (pause ?playing) = None"
    using a playing by blast
  have 5: "fst (resume_until_play (pause ?playing)) = Resume_awaiting_play"
    using c paused by blast
  have 6: "playbackState (onPlaybackStatusUpdate (Is_loaded ?past) (pause ?playing)) = Playing"
    using c paused by simp
  from step 1 playing(1) 2 3 4 5 6 show ?thesis by blast
qed

text \<open>
  Playback can continue past the end of the verse. Verse 1:2 ends at 2500 ms;
  \<^verbatim>\<open>playVerse(1, 2)\<close> sets the boundary to 2500 and starts the sound. The user pauses and
  resumes: \<^verbatim>\<open>pause()\<close> clears the boundary and \<^verbatim>\<open>resume()\<close> calls \<^verbatim>\<open>playAsync\<close> again. The
  status update at 2600 ms then calls nothing on the sound, whose last command remains
  \<^verbatim>\<open>playAsync\<close>, and sets the playback state to playing. Single-verse mode is off by then;
  but after \<^verbatim>\<open>pause()\<close> alone it is still on, and a status update at 2600 ms that reports
  the sound as playing (one sent before the pause took effect) likewise calls nothing,
  sets the playback state to playing and leaves single-verse mode on.
\<close>

theorem single_verse_boundary_cleared_counterexample:
  "singleVerseEndTime (playVerse_after_play True (snd (playVerse_after_setPosition True
     \<lparr>verse_key = ''1:2'', timestamp_from = 1000, timestamp_to = 2500, segments =
     []\<rparr> (snd (playVerse_until_setPosition 1 2 (initial_audio_state\<lparr>cur_audioUrl
     := Some ''https://cdn/001.mp3'', currentChapterId := Some 1, cur_verseTimings :=
     [\<lparr>verse_key = ''1:1'', timestamp_from = 0, timestamp_to = 1000, segments =
     []\<rparr>, \<lparr>verse_key = ''1:2'', timestamp_from = 1000, timestamp_to = 2500,
     segments = []\<rparr>]\<rparr>)))))) = Some 2500 \<and>
   isSingleVerseMode (playVerse_after_play True (snd (playVerse_after_setPosition True
     \<lparr>verse_key = ''1:2'', timestamp_from = 1000, timestamp_to = 2500, segments =
     []\<rparr> (snd (playVerse_until_setPosition 1 2 (initial_audio_state\<lparr>cur_audioUrl
     := Some ''https://cdn/001.mp3'', currentChapterId := Some 1, cur_verseTimings :=
     [\<lparr>verse_key = ''1:1'', timestamp_from = 0, timestamp_to = 1000, segments =
     []\<rparr>, \<lparr>verse_key = ''1:2'', timestamp_from = 1000, timestamp_to = 2500,
     segments = []\<rparr>]\<rparr>)))))) \<and>
   (2500::real) \<le> positionMillis \<lparr>positionMillis = 2600, durationMillis = Some 9000,
     isPlaying = True, didJustFinish = False\<rparr> \<and>
   fst (resume_until_play (pause (playVerse_after_play True (snd (playVerse_after_setPosition
     True \<lparr>verse_key = ''1:2'', timestamp_from = 1000, timestamp_to = 2500, segments =
     []\<rparr> (snd (playVerse_until_setPosition 1 2 (initial_audio_state\<lparr>cur_audioUrl
     := Some ''https://cdn/001.mp3'', currentChapterId := Some 1, cur_verseTimings :=
     [\<lparr>verse_key = ''1:1'', timestamp_from = 0, timestamp_to = 1000, segments =
     []\<rparr>, \<lparr>verse_key = ''1:2'', timestamp_from = 1000, timestamp_to = 2500,
     segments = []\<rparr>]\<rparr>)))))))) = Resume_awaiting_play \<and>
   sound_commands (resume_after_play True (snd (resume_until_play (pause (playVerse_after_play
     True (snd (playVerse_after_setPosition True \<lparr>verse_key = ''1:2'', timestamp_from =
     1000, timestamp_to = 2500, segments = []\<rparr> (snd (playVerse_until_setPosition 1 2
     (initial_audio_state\<lparr>cur_audioUrl := Some ''https://cdn/001.mp3'', currentChapterId
     := Some 1, cur_verseTimings := [\<lparr>verse_key = ''1:1'', timestamp_from = 0,
     timestamp_to = 1000, segments = []\<rparr>, \<lparr>verse_key = ''1:2'', timestamp_from =
     1000, timestamp_to = 2500, segments = []\<rparr>]\<rparr>)))))))))) = [SetPositionAsync
     1000, PlayAsync, PauseAsync, PlayAsync] \<and>
   sound_commands (onPlaybackStatusUpdate (Is_loaded \<lparr>positionMillis = 2600,
     durationMillis = Some 9000, isPlaying = True, didJustFinish = False\<rparr>)
     (resume_after_play True (snd (resume_until_play (pause (playVerse_after_play True (snd
     (playVerse_after_setPosition True \<lparr>verse_key = ''1:2'', timestamp_from = 1000,
     timestamp_to = 2500, segments = []\<rparr> (snd (playVerse_until_setPosition 1 2
     (initial_audio_state\<lparr>cur_audioUrl := Some ''https://cdn/001.mp3'', currentChapterId
     := Some 1, cur_verseTimings := [\<lparr>verse_key = ''1:1'', timestamp_from = 0,
     timestamp_to = 1000, segments = []\<rparr>, \<lparr>verse_key = ''1:2'', timestamp_from =
     1000, timestamp_to = 2500, segments = []\<rparr>]\<rparr>))))))))))) = [SetPositionAsync
     1000, PlayAsync, PauseAsync, PlayAsync] \<and>
   playbackState (onPlaybackStatusUpdate (Is_loaded \<lparr>positionMillis = 2600,
     durationMillis = Some 9000, isPlaying = True, didJustFinish = False\<rparr>)
     (resume_after_play True (snd (resume_until_play (pause (playVerse_after_play True (snd
     (playVerse_after_setPosition True \<lparr>verse_key = ''1:2'', timestamp_from = 1000,
     timestamp_to = 2500, segments = []\<rparr> (snd (playVerse_until_setPosition 1 2
     (initial_audio_state\<lparr>cur_audioUrl := Some ''https://cdn/001.mp3'', currentChapterId
     := Some 1, cur_verseTimings := [\<lparr>verse_key = ''1:1'', timestamp_from = 0,
     timestamp_to = 1000, segments = []\<rparr>, \<lparr>verse_key = ''1:2'', timestamp_from =
     1000, timestamp_to = 2500, segments = []\<rparr>]\<rparr>))))))))))) = Playing \<and>
   isSingleVerseMode (pause (playVerse_after_play True (snd (playVerse_after_setPosition True
     \<lparr>verse_key = ''1:2'', timestamp_from = 1000, timestamp_to = 2500, segments =
     []\<rparr> (snd (playVerse_until_setPosition 1 2 (initial_audio_state\<lparr>cur_audioUrl
     := Some ''https://cdn/001.mp3'', currentChapterId := Some 1, cur_verseTimings :=
     [\<lparr>verse_key = ''1:1'', timestamp_from = 0, timestamp_to = 1000, segments =
     []\<rparr>, \<lparr>verse_key = ''1:2'', timestamp_from = 1000, timestamp_to = 2500,
     segments = []\<rparr>]\<rparr>))))))) \<and>
   sound_commands (onPlaybackStatusUpdate (Is_loaded \<lparr>positionMillis = 2600,
     durationMillis = Some 9000, isPlaying = True, didJustFinish = False\<rparr>) (pause
     (playVerse_after_play True (snd (playVerse_after_setPosition True \<lparr>verse_key =
     ''1:2'', timestamp_from = 1000, timestamp_to = 2500, segments = []\<rparr> (snd
     (playVerse_until_setPosition 1 2 (initial_audio_state\<lparr>cur_audioUrl := Some
     ''https://cdn/001.mp3'', currentChapterId := Some 1, cur_verseTimings := [\<lparr>verse_key
     = ''1:1'', timestamp_from = 0, timestamp_to = 1000, segments = []\<rparr>,
     \<lparr>verse_key = ''1:2'', timestamp_from = 1000, timestamp_to = 2500, segments =
     []\<rparr>]\<rparr>)))))))) = sound_commands (pause (playVerse_after_play True (snd
     (playVerse_after_setPosition True \<lparr>verse_key = ''1:2'', timestamp_from = 1000,
     timestamp_to = 2500, segments = []\<rparr> (snd (playVerse_until_setPosition 1 2
     (initial_audio_state\<lparr>cur_audioUrl := Some ''https://cdn/001.mp3'', currentChapterId
     := Some 1, cur_verseTimings := [\<lparr>verse_key = ''1:1'', timestamp_from = 0,
     timestamp_to = 1000, segments = []\<rparr>, \<lparr>verse_key = ''1:2'', timestamp_from =
     1000, timestamp_to = 2500, segments = []\<rparr>]\<rparr>))))))) \<and>
   playbackState (onPlaybackStatusUpdate (Is_loaded \<lparr>positionMillis = 2600,
     durationMillis = Some 9000, isPlaying = True, didJustFinish = False\<rparr>) (pause
     (playVerse_after_play True (snd (playVerse_after_setPosition True \<lparr>verse_key =
     ''1:2'', timestamp_from = 1000, timestamp_to = 2500, segments = []\<rparr> (snd
     (playVerse_until_setPosition 1 2 (initial_audio_state\<lparr>cur_audioUrl := Some
     ''https://cdn/001.mp3'', currentChapterId := Some 1, cur_verseTimings := [\<lparr>verse_key
     = ''1:1'', timestamp_from = 0, timestamp_to = 1000, segments = []\<rparr>,
     \<lparr>verse_key = ''1:2'', timestamp_from = 1000, timestamp_to = 2500, segments =
     []\<rparr>]\<rparr>)))))))) = Playing \<and>
   isSingleVerseMode (onPlaybackStatusUpdate (Is_loaded \<lparr>positionMillis = 2600,
     durationMillis = Some 9000, isPlaying = True, didJustFinish = False\<rparr>) (pause
     (playVerse_after_play True (snd (playVerse_after_setPosition True \<lparr>verse_key =
     ''1:2'', timestamp_from = 1000, timestamp_to = 2500, segments = []\<rparr> (snd
     (playVerse_until_setPosition 1 2 (initial_audio_state\<lparr>cur_audioUrl := Some
     ''https://cdn/001.mp3'', currentChapterId := Some 1, cur_verseTimings := [\<lparr>verse_key
     = ''1:1'', timestamp_from = 0, timestamp_to = 1000, segments = []\<rparr>,
     \<lparr>verse_key = ''1:2'', timestamp_from = 1000, timestamp_to = 2500, segments =
     []\<rparr>]\<rparr>))))))))"
  by (simp add: getVerseTimingByNumber_def initial_audio_state_def String_of_int_def
        String_of_nat.simps digit_char_def playVerse_until_setPosition_def Let_def ensureSound_def
        falsy_string_def clearVerseEndBoundary_def playVerse_after_setPosition_def
        playVerse_after_play_def pause_def resume_until_play_def resume_after_play_def
        onPlaybackStatusUpdate_def)

section \<open>Properties of the last viewed verse\<close>

lemma lastViewed_loop_takeWhile:
  "lastViewed_loop offs vt c ks =
     (if takeWhile (offset_reached offs vt) ks = [] then c
      else last (takeWhile (offset_reached offs vt) ks))"
  by (induction ks arbitrary: c) auto

lemma sorted_le_last:
  fixes xs :: "'a::linorder list"
  shows "sorted xs \<Longrightarrow> x \<in> set xs \<Longrightarrow> x \<le> last xs"
  by (induction xs) auto

lemma sorted_hd_le:
  fixes xs :: "'a::linorder list"
  shows "sorted xs \<Longrightarrow> x \<in> set xs \<Longrightarrow> hd xs \<le> x"
  by (cases xs) auto

lemma sorted_distinct_prefix:
  fixes ks :: "'a::linorder list"
  assumes "sorted ks" "distinct ks" "takeWhile P ks \<noteq> []"
  shows "\<forall>k \<in> set ks. k \<le> last (takeWhile P ks) \<longrightarrow> P k"
    and "\<forall>k \<in> set ks. (\<forall>k' \<in> set ks. k' \<le> k \<longrightarrow> P k') \<longrightarrow> k \<le> last (takeWhile P ks)"
    and "last (takeWhile P ks) \<in> set ks"
proof -
  define pre where "pre = takeWhile P ks"
  define post where "post = dropWhile P ks"
  have ks: "ks = pre @ post" by (simp add: pre_def post_def)
  have ne: "pre \<noteq> []" using assms(3) by (simp add: pre_def)
  have cross: "\<forall>x \<in> set pre. \<forall>y \<in> set post. x \<le> y"
    using assms(1) unfolding ks by (simp add: sorted_append)
  have disj: "set pre \<inter> set post = {}"
    using assms(2) unfolding ks by simp
  have spre: "sorted pre" and spost: "sorted post"
    using assms(1) unfolding ks by (simp_all add: sorted_append)
  have lastin: "last pre \<in> set pre" using ne by simp
  have preP: "\<forall>x \<in> set pre. P x"
    unfolding pre_def by (auto dest: set_takeWhileD)
  have lastmax: "\<forall>x \<in> set pre. x \<le> last pre"
    using spre by (blast intro: sorted_le_last)
  have set_ks: "set ks = set pre \<union> set post"
    by (subst ks) simp
  show "last (takeWhile P ks) \<in> set ks"
    using lastin unfolding pre_def [symmetric] set_ks by simp
  show "\<forall>k \<in> set ks. k \<le> last (takeWhile P ks) \<longrightarrow> P k"
  proof (intro ballI impI)
    fix k assume k: "k \<in> set ks" "k \<le> last (takeWhile P ks)"
    show "P k"
    proof (cases "k \<in> set pre")
      case True
      with preP show ?thesis by blast
    next
      case False
      with k(1) have kp: "k \<in> set post" unfolding set_ks by simp
      with cross lastin have "last pre \<le> k" by blast
      with k(2) have "k = last pre" by (simp add: pre_def)
      with lastin kp disj show ?thesis by blast
    qed
  qed
  show "\<forall>k \<in> set ks. (\<forall>k' \<in> set ks. k' \<le> k \<longrightarrow> P k') \<longrightarrow> k \<le> last (takeWhile P ks)"
  proof (intro ballI impI)
    fix k assume k: "k \<in> set ks" "\<forall>k' \<in> set ks. k' \<le> k \<longrightarrow> P k'"
    show "k \<le> last (takeWhile P ks)"
    proof (cases "k \<in> set pre")
      case True
      with lastmax show ?thesis by (simp add: pre_def)
    next
      case False
      with k(1) have kp: "k \<in> set post" unfolding set_ks by simp
      then have pne: "post \<noteq> []" by auto
      then have "\<not> P (hd post)" unfolding post_def by (rule hd_dropWhile)
      moreover have "hd post \<in> set ks" using pne unfolding set_ks by simp
      moreover have "hd post \<le> k"
        using spost kp by (rule sorted_hd_le)
      ultimately show ?thesis using k(2) by blast
    qed
  qed
qed

lemma nonempty_by_member: "x \<in> set xs \<Longrightarrow> xs \<noteq> []"
  by auto

lemma getLastViewedVerse_None: "getLastViewedVerse number i offs y = None \<longleftrightarrow> offs = []"
proof (cases offs)
  case Nil
  then show ?thesis by (simp add: getLastViewedVerse_def)
next
  case (Cons p ps)
  then have "fst p \<in> set (sort (remdups (map fst offs)))" by simp
  then have "sort (remdups (map fst offs)) \<noteq> []" by (rule nonempty_by_member)
  then obtain a as where "sort (remdups (map fst offs)) = a # as"
    by (cases "sort (remdups (map fst offs))") auto
  then have "getLastViewedVerse number i offs y \<noteq> None"
    by (simp add: getLastViewedVerse_def Let_def del: lastViewed_loop.simps)
  moreover have "offs \<noteq> []" using Cons by simp
  ultimately show ?thesis by simp
qed

lemma getLastViewedVerse_Some:
  fixes number :: "nat \<Rightarrow> 'n::{plus,ord}" and i y :: 'n and offs :: "(int \<times> 'n) list"
  assumes "offs \<noteq> []"
  defines "K \<equiv> fst ` set offs"
  defines "Q \<equiv> offset_reached offs (y + i + number 56 + number 12)"
  shows "\<exists>c \<in> K. getLastViewedVerse number i offs y = Some c \<and>
           (if Q (Min K)
            then (\<forall>k \<in> K. k \<le> c \<longrightarrow> Q k) \<and> (\<forall>k \<in> K. (\<forall>k' \<in> K. k' \<le> k \<longrightarrow> Q k') \<longrightarrow> k \<le> c)
            else c = Min K)"
proof -
  define ks where "ks = sort (remdups (map fst offs))"
  have set_ks: "set ks = K" by (simp add: ks_def K_def)
  have sorted_ks: "sorted ks" and distinct_ks: "distinct ks" by (simp_all add: ks_def)
  have "K \<noteq> {}" using assms(1) by (simp add: K_def)
  then have "ks \<noteq> []" using set_ks by auto
  then obtain first rest where ks: "ks = first # rest" by (cases ks) auto
  have first_in: "first \<in> K" using set_ks ks by auto
  have first_Min: "first = Min K"
  proof -
    have "\<forall>k \<in> K. first \<le> k" using sorted_ks set_ks ks by auto
    with first_in have "Min K = first" by (intro Min_eqI) (auto simp: K_def)
    then show ?thesis by simp
  qed
  have res: "getLastViewedVerse number i offs y =
      Some (if takeWhile Q ks = [] then first else last (takeWhile Q ks))"
    using ks by (simp add: getLastViewedVerse_def ks_def [symmetric] lastViewed_loop_takeWhile Q_def)
  show ?thesis
  proof (cases "Q first")
    case False
    then have "takeWhile Q ks = []" using ks by simp
    with res False first_in first_Min show ?thesis by simp
  next
    case True
    then have ne: "takeWhile Q ks \<noteq> []" using ks by simp
    from sorted_distinct_prefix [OF sorted_ks distinct_ks ne] res ne True first_Min
    show ?thesis unfolding set_ks by simp
  qed
qed

text \<open>
  C4 (as amended). \<^verbatim>\<open>getLastViewedVerse\<close> returns \<^verbatim>\<open>null\<close> exactly when no offset
  is recorded. Otherwise, with \<open>viewportTop\<close> the sum \<open>scrollY + inset + 56 + 12\<close> as
  the code computes it, it returns a recorded verse number: when the smallest recorded
  verse has its offset at most the viewport top, the largest recorded verse \<open>c\<close> such
  that every recorded verse up to \<open>c\<close> has its offset at most \<open>viewportTop\<close> (the loop
  stops at the first verse that does not); otherwise the smallest recorded verse. When
  the verses that qualify are closed downwards (every recorded verse below a qualifying
  one qualifies too), this is the largest recorded verse whose offset is at most
  \<open>viewportTop\<close>, or the smallest recorded verse when none qualifies.
\<close>

theorem getLastViewedVerse_longest_prefix:
  fixes number :: "nat \<Rightarrow> 'n::{plus,ord}" and insets_top scrollY :: 'n
    and offsets :: "(int \<times> 'n) list"
  shows
  "(getLastViewedVerse number insets_top offsets scrollY = None \<longleftrightarrow> offsets = []) \<and>
   (offsets \<noteq> [] \<longrightarrow>
      (\<exists>c \<in> fst ` set offsets.
         getLastViewedVerse number insets_top offsets scrollY = Some c \<and>
         (if offset_reached offsets (scrollY + insets_top + number 56 + number 12) (Min (fst ` set offsets))
          then (\<forall>k \<in> fst ` set offsets. k \<le> c \<longrightarrow>
                  offset_reached offsets (scrollY + insets_top + number 56 + number 12) k) \<and>
               (\<forall>k \<in> fst ` set offsets.
                  (\<forall>k' \<in> fst ` set offsets. k' \<le> k \<longrightarrow>
                     offset_reached offsets (scrollY + insets_top + number 56 + number 12) k') \<longrightarrow> k \<le> c)
          else c = Min (fst ` set offsets)))) \<and>
   (offsets \<noteq> [] \<and>
    (\<forall>a \<in> fst ` set offsets. \<forall>b \<in> fst ` set offsets.
       a \<le> b \<and> offset_reached offsets (scrollY + insets_top + number 56 + number 12) b \<longrightarrow>
       offset_reached offsets (scrollY + insets_top + number 56 + number 12) a) \<longrightarrow>
      getLastViewedVerse number insets_top offsets scrollY =
        Some (if \<exists>k \<in> fst ` set offsets. offset_reached offsets (scrollY + insets_top + number 56 + number 12) k
              then Max {k \<in> fst ` set offsets.
                          offset_reached offsets (scrollY + insets_top + number 56 + number 12) k}
              else Min (fst ` set offsets)))"
proof (intro conjI impI)
  show "getLastViewedVerse number insets_top offsets scrollY = None \<longleftrightarrow> offsets = []"
    by (rule getLastViewedVerse_None)
next
  assume "offsets \<noteq> []"
  then show "\<exists>c \<in> fst ` set offsets.
         getLastViewedVerse number insets_top offsets scrollY = Some c \<and>
         (if offset_reached offsets (scrollY + insets_top + number 56 + number 12) (Min (fst ` set offsets))
          then (\<forall>k \<in> fst ` set offsets. k \<le> c \<longrightarrow>
                  offset_reached offsets (scrollY + insets_top + number 56 + number 12) k) \<and>
               (\<forall>k \<in> fst ` set offsets.
                  (\<forall>k' \<in> fst ` set offsets. k' \<le> k \<longrightarrow>
                     offset_reached offsets (scrollY + insets_top + number 56 + number 12) k') \<longrightarrow> k \<le> c)
          else c = Min (fst ` set offsets))"
    by (rule getLastViewedVerse_Some)
next
  define K where "K = fst ` set offsets"
  define Q where "Q = offset_reached offsets (scrollY + insets_top + number 56 + number 12)"
  assume a: "offsets \<noteq> [] \<and>
    (\<forall>a \<in> fst ` set offsets. \<forall>b \<in> fst ` set offsets.
       a \<le> b \<and> offset_reached offsets (scrollY + insets_top + number 56 + number 12) b \<longrightarrow>
       offset_reached offsets (scrollY + insets_top + number 56 + number 12) a)"
  then have ne: "offsets \<noteq> []" and down: "\<forall>a \<in> K. \<forall>b \<in> K. a \<le> b \<and> Q b \<longrightarrow> Q a"
    by (simp_all add: K_def Q_def)
  have fin: "finite K" and Kne: "K \<noteq> {}" using ne by (simp_all add: K_def)
  have "\<exists>c \<in> K. getLastViewedVerse number insets_top offsets scrollY = Some c \<and>
      (if Q (Min K)
       then (\<forall>k \<in> K. k \<le> c \<longrightarrow> Q k) \<and> (\<forall>k \<in> K. (\<forall>k' \<in> K. k' \<le> k \<longrightarrow> Q k') \<longrightarrow> k \<le> c)
       else c = Min K)"
    unfolding K_def Q_def using ne by (rule getLastViewedVerse_Some)
  then obtain c where cK: "c \<in> K"
    and c_all: "getLastViewedVerse number insets_top offsets scrollY = Some c \<and>
      (if Q (Min K)
       then (\<forall>k \<in> K. k \<le> c \<longrightarrow> Q k) \<and> (\<forall>k \<in> K. (\<forall>k' \<in> K. k' \<le> k \<longrightarrow> Q k') \<longrightarrow> k \<le> c)
       else c = Min K)" ..
  from c_all have c_res: "getLastViewedVerse number insets_top offsets scrollY = Some c" ..
  from c_all have c_if: "if Q (Min K)
       then (\<forall>k \<in> K. k \<le> c \<longrightarrow> Q k) \<and> (\<forall>k \<in> K. (\<forall>k' \<in> K. k' \<le> k \<longrightarrow> Q k') \<longrightarrow> k \<le> c)
       else c = Min K" ..
  have "c = (if \<exists>k \<in> K. Q k then Max {k \<in> K. Q k} else Min K)"
  proof (cases "\<exists>k \<in> K. Q k")
    case False
    then have "\<not> Q (Min K)" using fin Kne by (meson Min_in)
    with c_if False show ?thesis by simp
  next
    case True
    then obtain k where k: "k \<in> K" "Q k" by blast
    have "Min K \<le> k" using fin k(1) by simp
    moreover have "Min K \<in> K" using fin Kne by simp
    ultimately have QMin: "Q (Min K)" using down k by blast
    with c_if have "(\<forall>k \<in> K. k \<le> c \<longrightarrow> Q k) \<and> (\<forall>k \<in> K. (\<forall>k' \<in> K. k' \<le> k \<longrightarrow> Q k') \<longrightarrow> k \<le> c)"
      by (simp only: if_True)
    then have lo: "\<forall>k \<in> K. k \<le> c \<longrightarrow> Q k"
      and hi: "\<forall>k \<in> K. (\<forall>k' \<in> K. k' \<le> k \<longrightarrow> Q k') \<longrightarrow> k \<le> c" by (rule conjunct1, rule conjunct2)
    have finQ: "finite {k \<in> K. Q k}" using fin by simp
    have neQ: "{k \<in> K. Q k} \<noteq> {}" using k by blast
    have "Q c" using lo cK by simp
    then have cin: "c \<in> {k \<in> K. Q k}" using cK by simp
    have "\<forall>m \<in> {k \<in> K. Q k}. m \<le> c"
    proof
      fix m assume "m \<in> {k \<in> K. Q k}"
      then have m: "m \<in> K" "Q m" by simp_all
      then have "\<forall>k' \<in> K. k' \<le> m \<longrightarrow> Q k'" using down by blast
      with hi m(1) show "m \<le> c" by blast
    qed
    with cin finQ have "Max {k \<in> K. Q k} = c" by (intro Max_eqI) auto
    with True show ?thesis by simp
  qed
  with c_res show "getLastViewedVerse number insets_top offsets scrollY =
        Some (if \<exists>k \<in> fst ` set offsets. offset_reached offsets (scrollY + insets_top + number 56 + number 12) k
              then Max {k \<in> fst ` set offsets.
                          offset_reached offsets (scrollY + insets_top + number 56 + number 12) k}
              else Min (fst ` set offsets))"
    unfolding K_def Q_def by simp
qed

theorem getLastViewedVerse_longest_prefix_witness:
  "[(3, 100), (1, 0), (2, 50), (4, 300::real)] \<noteq> [] \<and>
   getLastViewedVerse of_nat 0 [(3, 100), (1, 0), (2, 50), (4, 300::real)] 0 = Some 2 \<and>
   offset_reached [(3, 100), (1, 0), (2, 50), (4, 300::real)] (0 + 0 + of_nat 56 + of_nat 12) 1 \<and>
   offset_reached [(3, 100), (1, 0), (2, 50), (4, 300::real)] (0 + 0 + of_nat 56 + of_nat 12) 2 \<and>
   \<not> offset_reached [(3, 100), (1, 0), (2, 50), (4, 300::real)] (0 + 0 + of_nat 56 + of_nat 12) 3"
  using getLastViewedVerse_longest_prefix
    [of of_nat 0 "[(3, 100), (1, 0), (2, 50), (4, 300::real)]" 0]
  by (simp add: getLastViewedVerse_def offset_reached_def)

text \<open>
  The result is not always the largest recorded verse whose offset is at most the
  viewport top. That fails when offsets do not grow with the verse number: with verse 1
  at offset 1000 and verse 2 at offset 10, scroll position 0 and inset 0, the viewport
  top is 68 (the sums of these small integers are exact in doubles too), verse 2
  qualifies and verse 1 does not, and the function returns verse 1.
\<close>

theorem getLastViewedVerse_largest_counterexample:
  "getLastViewedVerse of_nat 0 [(1, 1000), (2, 10::real)] 0 = Some 1 \<and>
   map_of [(1::int, 1000::real), (2, 10)] 2 = Some 10 \<and>
   (10::real) \<le> 0 + 0 + of_nat 56 + of_nat 12 \<and>
   map_of [(1::int, 1000::real), (2, 10)] 1 = Some 1000 \<and>
   \<not> (1000::real) \<le> 0 + 0 + of_nat 56 + of_nat 12"
  by (simp add: getLastViewedVerse_def offset_reached_def)

section \<open>Properties of the subscription check\<close>

lemma apply_plan_bundle_parts:
  assumes "subscribed (bundle_sub s) \<longrightarrow> subscribed (read s) \<and> subscribed (audiobook s)"
  shows "subscribed (bundle_sub (apply_plan sub plan s)) \<longrightarrow>
           subscribed (read (apply_plan sub plan s)) \<and> subscribed (audiobook (apply_plan sub plan s))"
  using assms by (cases "product_type plan") (auto simp: apply_plan_def Let_def)

lemma plans_loop_bundle_parts:
  assumes "subscribed (bundle_sub s) \<longrightarrow> subscribed (read s) \<and> subscribed (audiobook s)"
  shows "subscribed (bundle_sub (plans_loop sub plans s)) \<longrightarrow>
           subscribed (read (plans_loop sub plans s)) \<and> subscribed (audiobook (plans_loop sub plans s))"
  using assms
proof (induction plans arbitrary: s)
  case Nil
  then show ?case by simp
next
  case (Cons plan rest)
  from Cons.prems have "subscribed (bundle_sub (apply_plan sub plan s)) \<longrightarrow>
      subscribed (read (apply_plan sub plan s)) \<and> subscribed (audiobook (apply_plan sub plan s))"
    by (rule apply_plan_bundle_parts)
  then show ?case using Cons.IH by simp
qed

lemma subscriptions_forEach_bundle_parts:
  assumes "subscribed (bundle_sub s) \<longrightarrow> subscribed (read s) \<and> subscribed (audiobook s)"
  shows "subscribed (bundle_sub (subscriptions_forEach plans subs s)) \<longrightarrow>
           subscribed (read (subscriptions_forEach plans subs s)) \<and>
           subscribed (audiobook (subscriptions_forEach plans subs s))"
  using assms
proof (induction subs arbitrary: s)
  case Nil
  then show ?case by simp
next
  case (Cons sub rest)
  have "subscribed (bundle_sub (apply_subscription plans sub s)) \<longrightarrow>
      subscribed (read (apply_subscription plans sub s)) \<and>
      subscribed (audiobook (apply_subscription plans sub s))"
    using Cons.prems plans_loop_bundle_parts [of s sub plans]
    by (simp add: apply_subscription_def)
  then show ?case using Cons.IH by simp
qed

lemma build_newSubscriptions_bundle_parts:
  "subscribed (bundle_sub (build_newSubscriptions plans dsubs)) \<longrightarrow>
     subscribed (read (build_newSubscriptions plans dsubs)) \<and>
     subscribed (audiobook (build_newSubscriptions plans dsubs))"
proof (cases dsubs)
  case None
  then show ?thesis by (simp add: build_newSubscriptions_def DEFAULT_SUBSCRIPTIONS_def)
next
  case (Some subs)
  have "subscribed (bundle_sub DEFAULT_SUBSCRIPTIONS) \<longrightarrow>
      subscribed (read DEFAULT_SUBSCRIPTIONS) \<and> subscribed (audiobook DEFAULT_SUBSCRIPTIONS)"
    by (simp add: DEFAULT_SUBSCRIPTIONS_def)
  then show ?thesis unfolding build_newSubscriptions_def Some option.case
    by (rule subscriptions_forEach_bundle_parts)
qed

lemma checkSubscription_subscriptions_cases:
  assumes "checkSubscription_subscriptions tok uid fresh invoked plans = Some s"
  shows "s = DEFAULT_SUBSCRIPTIONS \<or>
         (\<exists>res d. invoked = Inr res \<and> data res = Some d \<and>
                  s = build_newSubscriptions plans (data_subscriptions d))"
  using assms
  by (auto simp: checkSubscription_subscriptions_def performCheck_subscriptions_def
           split: if_splits sum.splits option.splits)

lemma plans_loop_read_follows_bundle:
  assumes "read s = bundle_sub s"
    and "\<forall>plan \<in> set plans. stripe_product_id plan = Some (product_id sub) \<longrightarrow> product_type plan \<noteq> Read"
  shows "read (plans_loop sub plans s) = bundle_sub (plans_loop sub plans s)"
  using assms
proof (induction plans arbitrary: s)
  case Nil
  then show ?case by simp
next
  case (Cons plan rest)
  have "read (apply_plan sub plan s) = bundle_sub (apply_plan sub plan s)"
    using Cons.prems by (cases "product_type plan") (auto simp: apply_plan_def Let_def)
  then show ?case using Cons.IH Cons.prems(2) by simp
qed

lemma plans_loop_audiobook_follows_bundle:
  assumes "audiobook s = bundle_sub s"
    and "\<forall>plan \<in> set plans. stripe_product_id plan = Some (product_id sub) \<longrightarrow> product_type plan \<noteq> Audiobook"
  shows "audiobook (plans_loop sub plans s) = bundle_sub (plans_loop sub plans s)"
  using assms
proof (induction plans arbitrary: s)
  case Nil
  then show ?case by simp
next
  case (Cons plan rest)
  have "audiobook (apply_plan sub plan s) = bundle_sub (apply_plan sub plan s)"
    using Cons.prems by (cases "product_type plan") (auto simp: apply_plan_def Let_def)
  then show ?case using Cons.IH Cons.prems(2) by simp
qed

lemma subscriptions_forEach_read_follows_bundle:
  assumes "read s = bundle_sub s" and "\<not> live_match plans subs Read"
  shows "read (subscriptions_forEach plans subs s) = bundle_sub (subscriptions_forEach plans subs s)"
  using assms
proof (induction subs arbitrary: s)
  case Nil
  then show ?case by simp
next
  case (Cons sub rest)
  have rest: "\<not> live_match plans rest Read"
    using Cons.prems(2) by (auto simp: live_match_def)
  have "read (apply_subscription plans sub s) = bundle_sub (apply_subscription plans sub s)"
  proof (cases "status sub = Some ''canceled'' \<or> status sub = Some ''cancelled''")
    case True
    then show ?thesis using Cons.prems(1) by (auto simp: apply_subscription_def)
  next
    case False
    then have "\<forall>plan \<in> set plans. stripe_product_id plan = Some (product_id sub) \<longrightarrow>
        product_type plan \<noteq> Read"
      using Cons.prems(2) by (auto simp: live_match_def)
    with Cons.prems(1) show ?thesis
      using False by (simp add: apply_subscription_def plans_loop_read_follows_bundle)
  qed
  with rest show ?case using Cons.IH by simp
qed

lemma subscriptions_forEach_audiobook_follows_bundle:
  assumes "audiobook s = bundle_sub s" and "\<not> live_match plans subs Audiobook"
  shows "audiobook (subscriptions_forEach plans subs s) = bundle_sub (subscriptions_forEach plans subs s)"
  using assms
proof (induction subs arbitrary: s)
  case Nil
  then show ?case by simp
next
  case (Cons sub rest)
  have rest: "\<not> live_match plans rest Audiobook"
    using Cons.prems(2) by (auto simp: live_match_def)
  have "audiobook (apply_subscription plans sub s) = bundle_sub (apply_subscription plans sub s)"
  proof (cases "status sub = Some ''canceled'' \<or> status sub = Some ''cancelled''")
    case True
    then show ?thesis using Cons.prems(1) by (auto simp: apply_subscription_def)
  next
    case False
    then have "\<forall>plan \<in> set plans. stripe_product_id plan = Some (product_id sub) \<longrightarrow>
        product_type plan \<noteq> Audiobook"
      using Cons.prems(2) by (auto simp: live_match_def)
    with Cons.prems(1) show ?thesis
      using False by (simp add: apply_subscription_def plans_loop_audiobook_follows_bundle)
  qed
  with rest show ?case using Cons.IH by simp
qed

text \<open>
  C8 (as amended). Every subscriptions value that \<^verbatim>\<open>checkSubscription\<close> hands to
  \<^verbatim>\<open>setSubscriptions\<close> satisfies: if the bundle is subscribed then read and audiobook
  are subscribed too, so \<^verbatim>\<open>hasBundleAccess\<close> implies \<^verbatim>\<open>hasReadAccess\<close> and
  \<^verbatim>\<open>hasAudiobookAccess\<close>. The read (audiobook) entry is equal to the bundle entry,
  subscription end included, whenever no subscription of the response that is not
  cancelled names the Stripe product of a read (audiobook) plan.
\<close>

theorem checkSubscription_bundle_implies_parts:
  assumes "checkSubscription_subscriptions tok uid fresh invoked plans = Some s"
  shows "(subscribed (bundle_sub s) \<longrightarrow> subscribed (read s) \<and> subscribed (audiobook s)) \<and>
         (hasBundleAccess s \<longrightarrow> hasReadAccess s \<and> hasAudiobookAccess s) \<and>
         (\<forall>res d subs. invoked = Inr res \<and> data res = Some d \<and>
              data_subscriptions d = Some subs \<and> \<not> live_match plans subs Read \<longrightarrow>
              read s = bundle_sub s) \<and>
         (\<forall>res d subs. invoked = Inr res \<and> data res = Some d \<and>
              data_subscriptions d = Some subs \<and> \<not> live_match plans subs Audiobook \<longrightarrow>
              audiobook s = bundle_sub s)"
proof -
  from assms have cases: "s = DEFAULT_SUBSCRIPTIONS \<or>
      (\<exists>res d. invoked = Inr res \<and> data res = Some d \<and>
               s = build_newSubscriptions plans (data_subscriptions d))"
    by (rule checkSubscription_subscriptions_cases)
  have parts: "subscribed (bundle_sub s) \<longrightarrow> subscribed (read s) \<and> subscribed (audiobook s)"
    using cases build_newSubscriptions_bundle_parts
    by (auto simp: DEFAULT_SUBSCRIPTIONS_def)
  have access: "hasBundleAccess s \<longrightarrow> hasReadAccess s \<and> hasAudiobookAccess s"
    by (simp add: hasBundleAccess_def hasReadAccess_def hasAudiobookAccess_def)
  have rd: "read s = bundle_sub s"
    if "invoked = Inr res" "data res = Some d" "data_subscriptions d = Some subs"
       "\<not> live_match plans subs Read" for res d subs
  proof -
    from cases that(1,2,3)
    have "s = DEFAULT_SUBSCRIPTIONS \<or> s = subscriptions_forEach plans subs DEFAULT_SUBSCRIPTIONS"
      by (auto simp: build_newSubscriptions_def)
    moreover have "read DEFAULT_SUBSCRIPTIONS = bundle_sub DEFAULT_SUBSCRIPTIONS"
      by (simp add: DEFAULT_SUBSCRIPTIONS_def)
    ultimately show ?thesis
      using that(4) subscriptions_forEach_read_follows_bundle [of DEFAULT_SUBSCRIPTIONS plans subs]
      by auto
  qed
  have ab: "audiobook s = bundle_sub s"
    if "invoked = Inr res" "data res = Some d" "data_subscriptions d = Some subs"
       "\<not> live_match plans subs Audiobook" for res d subs
  proof -
    from cases that(1,2,3)
    have "s = DEFAULT_SUBSCRIPTIONS \<or> s = subscriptions_forEach plans subs DEFAULT_SUBSCRIPTIONS"
      by (auto simp: build_newSubscriptions_def)
    moreover have "audiobook DEFAULT_SUBSCRIPTIONS = bundle_sub DEFAULT_SUBSCRIPTIONS"
      by (simp add: DEFAULT_SUBSCRIPTIONS_def)
    ultimately show ?thesis
      using that(4) subscriptions_forEach_audiobook_follows_bundle [of DEFAULT_SUBSCRIPTIONS plans subs]
      by auto
  qed
  from parts access rd ab show ?thesis by blast
qed

theorem checkSubscription_bundle_implies_parts_witness:
  "checkSubscription_subscriptions (Some ''tok'') (Some ''user-1'') (Some ''tok'')
     (Inr \<lparr>fnError = None,
           data = Some \<lparr>data_error = None,
                        data_subscriptions = Some
                          [\<lparr>product_id = ''prod_bundle'', remote_subscription_end = ''2027-01-01'',
                            status = Some ''active''\<rparr>,
                           \<lparr>product_id = ''prod_read'', remote_subscription_end = ''2026-06-01'',
                            status = Some ''canceled''\<rparr>]\<rparr>\<rparr>)
     [\<lparr>plan_id = ''p1'', product_type = Read, stripe_product_id = Some ''prod_read''\<rparr>,
      \<lparr>plan_id = ''p2'', product_type = Bundle, stripe_product_id = Some ''prod_bundle''\<rparr>]
   = Some \<lparr>read = \<lparr>subscribed = True, subscription_end = Some ''2027-01-01''\<rparr>,
           audiobook = \<lparr>subscribed = True, subscription_end = Some ''2027-01-01''\<rparr>,
           bundle_sub = \<lparr>subscribed = True, subscription_end = Some ''2027-01-01''\<rparr>\<rparr>
   \<and> hasBundleAccess \<lparr>read = \<lparr>subscribed = True, subscription_end = Some ''2027-01-01''\<rparr>,
           audiobook = \<lparr>subscribed = True, subscription_end = Some ''2027-01-01''\<rparr>,
           bundle_sub = \<lparr>subscribed = True, subscription_end = Some ''2027-01-01''\<rparr>\<rparr>
   \<and> hasReadAccess \<lparr>read = \<lparr>subscribed = True, subscription_end = Some ''2027-01-01''\<rparr>,
           audiobook = \<lparr>subscribed = True, subscription_end = Some ''2027-01-01''\<rparr>,
           bundle_sub = \<lparr>subscribed = True, subscription_end = Some ''2027-01-01''\<rparr>\<rparr>
   \<and> hasAudiobookAccess \<lparr>read = \<lparr>subscribed = True, subscription_end = Some ''2027-01-01''\<rparr>,
           audiobook = \<lparr>subscribed = True, subscription_end = Some ''2027-01-01''\<rparr>,
           bundle_sub = \<lparr>subscribed = True, subscription_end = Some ''2027-01-01''\<rparr>\<rparr>"
proof -
  have run: "checkSubscription_subscriptions (Some ''tok'') (Some ''user-1'') (Some ''tok'')
     (Inr \<lparr>fnError = None,
           data = Some \<lparr>data_error = None,
                        data_subscriptions = Some
                          [\<lparr>product_id = ''prod_bundle'', remote_subscription_end = ''2027-01-01'',
                            status = Some ''active''\<rparr>,
                           \<lparr>product_id = ''prod_read'', remote_subscription_end = ''2026-06-01'',
                            status = Some ''canceled''\<rparr>]\<rparr>\<rparr>)
     [\<lparr>plan_id = ''p1'', product_type = Read, stripe_product_id = Some ''prod_read''\<rparr>,
      \<lparr>plan_id = ''p2'', product_type = Bundle, stripe_product_id = Some ''prod_bundle''\<rparr>]
   = Some \<lparr>read = \<lparr>subscribed = True, subscription_end = Some ''2027-01-01''\<rparr>,
           audiobook = \<lparr>subscribed = True, subscription_end = Some ''2027-01-01''\<rparr>,
           bundle_sub = \<lparr>subscribed = True, subscription_end = Some ''2027-01-01''\<rparr>\<rparr>"
    by (simp add: checkSubscription_subscriptions_def performCheck_subscriptions_def
          falsy_string_def build_newSubscriptions_def apply_subscription_def apply_plan_def
          DEFAULT_SUBSCRIPTIONS_def)
  from checkSubscription_bundle_implies_parts [OF run] run show ?thesis
    by (simp add: hasBundleAccess_def hasReadAccess_def hasAudiobookAccess_def)
qed

text \<open>
  The bundle's end date is not always the one that read carries: a live read subscription
  listed after the bundle overwrites the read entry with its own end date.
\<close>

theorem checkSubscription_same_end_counterexample:
  "checkSubscription_subscriptions (Some ''tok'') (Some ''user-1'') (Some ''tok'')
     (Inr \<lparr>fnError = None,
           data = Some \<lparr>data_error = None,
                        data_subscriptions = Some
                          [\<lparr>product_id = ''prod_bundle'', remote_subscription_end = ''2027-01-01'',
                            status = Some ''active''\<rparr>,
                           \<lparr>product_id = ''prod_read'', remote_subscription_end = ''2026-06-01'',
                            status = Some ''active''\<rparr>]\<rparr>\<rparr>)
     [\<lparr>plan_id = ''p1'', product_type = Read, stripe_product_id = Some ''prod_read''\<rparr>,
      \<lparr>plan_id = ''p2'', product_type = Bundle, stripe_product_id = Some ''prod_bundle''\<rparr>]
   = Some \<lparr>read = \<lparr>subscribed = True, subscription_end = Some ''2026-06-01''\<rparr>,
           audiobook = \<lparr>subscribed = True, subscription_end = Some ''2027-01-01''\<rparr>,
           bundle_sub = \<lparr>subscribed = True, subscription_end = Some ''2027-01-01''\<rparr>\<rparr>
   \<and> Some ''2026-06-01'' \<noteq> Some ''2027-01-01''"
  by (simp add: checkSubscription_subscriptions_def performCheck_subscriptions_def
        falsy_string_def build_newSubscriptions_def apply_subscription_def apply_plan_def
        DEFAULT_SUBSCRIPTIONS_def)

section \<open>Properties of the subscription cache\<close>

lemma cache_keys_distinct: "SUBSCRIPTION_CACHE_KEY \<noteq> SUBSCRIPTION_CACHE_EXPIRY_KEY"
  by (simp add: SUBSCRIPTION_CACHE_KEY_def SUBSCRIPTION_CACHE_EXPIRY_KEY_def)

lemma cached_json_properties:
  "get_property (cached_json u s) ''userId'' = Inr (Some (JString u))"
  "get_property (cached_json u s) ''subscriptions'' = Inr (Some (subscriptions_json s))"
  by (simp_all add: cached_json_def)

lemma cacheSubscription_written:
  assumes "\<not> rejects (SetItem SUBSCRIPTION_CACHE_KEY)"
    and "\<not> rejects (SetItem SUBSCRIPTION_CACHE_EXPIRY_KEY)"
  shows "cacheSubscription stringify rejects written u s items =
           items(SUBSCRIPTION_CACHE_KEY \<mapsto> stringify (cached_json u s),
                 SUBSCRIPTION_CACHE_EXPIRY_KEY \<mapsto> String_of_nat (written + CACHE_DURATION_MS))"
  using assms by (simp add: cacheSubscription_def)

lemma getCachedSubscription_fresh_entry:
  assumes reads: "\<not> rejects (GetItem SUBSCRIPTION_CACHE_KEY)"
      "\<not> rejects (GetItem SUBSCRIPTION_CACHE_EXPIRY_KEY)"
      "\<not> rejects (MultiRemove [SUBSCRIPTION_CACHE_KEY, SUBSCRIPTION_CACHE_EXPIRY_KEY])"
    and entry: "items SUBSCRIPTION_CACHE_KEY = Some stored" "stored \<noteq> []"
      "items SUBSCRIPTION_CACHE_EXPIRY_KEY = Some (String_of_nat expiry)"
    and parsed: "parse stored = Inr (cached_json u s)"
  shows "getCachedSubscription parse rejects now u' items =
           (if expiry < now \<or> u' \<noteq> u
            then (Some JNull,
                  items(SUBSCRIPTION_CACHE_KEY := None, SUBSCRIPTION_CACHE_EXPIRY_KEY := None))
            else (Some (subscriptions_json s), items))"
  using assms String_of_nat_nonempty [of expiry]
  by (simp add: getCachedSubscription_def parseInt_String_of_nat cached_json_properties)

lemma getCachedSubscription_rejected:
  assumes "rejects (GetItem SUBSCRIPTION_CACHE_KEY) \<or> rejects (GetItem SUBSCRIPTION_CACHE_EXPIRY_KEY)"
  shows "getCachedSubscription parse rejects now u items = (Some JNull, items)"
  using assms by (auto simp: getCachedSubscription_def)

lemma getCachedSubscription_fresh_entry_remove_rejected:
  assumes reads: "\<not> rejects (GetItem SUBSCRIPTION_CACHE_KEY)"
      "\<not> rejects (GetItem SUBSCRIPTION_CACHE_EXPIRY_KEY)"
      "rejects (MultiRemove [SUBSCRIPTION_CACHE_KEY, SUBSCRIPTION_CACHE_EXPIRY_KEY])"
    and entry: "items SUBSCRIPTION_CACHE_KEY = Some stored" "stored \<noteq> []"
      "items SUBSCRIPTION_CACHE_EXPIRY_KEY = Some (String_of_nat expiry)"
    and parsed: "parse stored = Inr (cached_json u s)"
  shows "getCachedSubscription parse rejects now u' items =
           (if expiry < now \<or> u' \<noteq> u then (Some JNull, items)
            else (Some (subscriptions_json s), items))"
  using assms String_of_nat_nonempty [of expiry]
  by (simp add: getCachedSubscription_def parseInt_String_of_nat cached_json_properties)

lemma getCachedSubscription_fresh_entry_kept:
  assumes reads: "\<not> rejects (GetItem SUBSCRIPTION_CACHE_KEY)"
      "\<not> rejects (GetItem SUBSCRIPTION_CACHE_EXPIRY_KEY)"
    and entry: "items SUBSCRIPTION_CACHE_KEY = Some stored" "stored \<noteq> []"
      "items SUBSCRIPTION_CACHE_EXPIRY_KEY = Some (String_of_nat expiry)"
    and parsed: "parse stored = Inr (cached_json u s)"
    and fresh: "now \<le> expiry"
  shows "getCachedSubscription parse rejects now u items = (Some (subscriptions_json s), items)"
  using assms String_of_nat_nonempty [of expiry]
  by (simp add: getCachedSubscription_def parseInt_String_of_nat cached_json_properties)

lemma cacheSubscription_first_rejected:
  assumes "rejects (SetItem SUBSCRIPTION_CACHE_KEY)"
  shows "cacheSubscription stringify rejects written u s items = items"
  using assms by (simp add: cacheSubscription_def)

lemma cacheSubscription_second_rejected:
  assumes "\<not> rejects (SetItem SUBSCRIPTION_CACHE_KEY)"
    and "rejects (SetItem SUBSCRIPTION_CACHE_EXPIRY_KEY)"
  shows "cacheSubscription stringify rejects written u s items =
           items(SUBSCRIPTION_CACHE_KEY \<mapsto> stringify (cached_json u s))"
  using assms by (simp add: cacheSubscription_def)

text \<open>
  C2 (as amended). Let \<^verbatim>\<open>JSON.parse\<close> give back the object that \<^verbatim>\<open>JSON.stringify\<close> wrote
  for \<open>u\<close> and \<open>s\<close>. When both \<^verbatim>\<open>setItem\<close> calls of \<^verbatim>\<open>cacheSubscription(u, s)\<close> resolve,
  written at time \<open>written\<close>, the stored expiry is \<open>written + 3600000\<close>, and when the two
  \<^verbatim>\<open>getItem\<close> calls of \<^verbatim>\<open>getCachedSubscription\<close> resolve as well:
  \<^item> for the user \<open>u\<close> at a time not after the expiry it returns the subscriptions and
    leaves the storage as it is;
  \<^item> at a time after the expiry, or for a user other than \<open>u\<close>, it returns \<^verbatim>\<open>null\<close>, and
    both keys are removed when \<^verbatim>\<open>multiRemove\<close> resolves, while the storage is left as it
    is when \<^verbatim>\<open>multiRemove\<close> rejects.

  In any state of the storage, when one of the two \<^verbatim>\<open>getItem\<close> calls rejects,
  \<^verbatim>\<open>getCachedSubscription\<close> returns \<^verbatim>\<open>null\<close> and leaves the storage as it is. When the
  first \<^verbatim>\<open>setItem\<close> rejects, \<^verbatim>\<open>cacheSubscription\<close> leaves the storage as it is; when only
  the second rejects, it has written the cache key and not the expiry key.
\<close>

theorem subscription_cache_ttl:
  "(parse (stringify (cached_json u s)) = Inr (cached_json u s) \<and>
    stringify (cached_json u s) \<noteq> [] \<and>
    \<not> rejects_w (SetItem SUBSCRIPTION_CACHE_KEY) \<and>
    \<not> rejects_w (SetItem SUBSCRIPTION_CACHE_EXPIRY_KEY) \<longrightarrow>
      cacheSubscription stringify rejects_w written u s items SUBSCRIPTION_CACHE_EXPIRY_KEY =
        Some (String_of_nat (written + 3600000)) \<and>
      (\<not> rejects_r (GetItem SUBSCRIPTION_CACHE_KEY) \<and>
       \<not> rejects_r (GetItem SUBSCRIPTION_CACHE_EXPIRY_KEY) \<longrightarrow>
         (now \<le> written + 3600000 \<longrightarrow>
            getCachedSubscription parse rejects_r now u
                (cacheSubscription stringify rejects_w written u s items) =
              (Some (subscriptions_json s),
               cacheSubscription stringify rejects_w written u s items)) \<and>
         ((now > written + 3600000 \<or> u' \<noteq> u) \<and>
          \<not> rejects_r (MultiRemove [SUBSCRIPTION_CACHE_KEY, SUBSCRIPTION_CACHE_EXPIRY_KEY]) \<longrightarrow>
            getCachedSubscription parse rejects_r now u'
                (cacheSubscription stringify rejects_w written u s items) =
              (Some JNull,
               (cacheSubscription stringify rejects_w written u s items)
                 (SUBSCRIPTION_CACHE_KEY := None, SUBSCRIPTION_CACHE_EXPIRY_KEY := None))) \<and>
         ((now > written + 3600000 \<or> u' \<noteq> u) \<and>
          rejects_r (MultiRemove [SUBSCRIPTION_CACHE_KEY, SUBSCRIPTION_CACHE_EXPIRY_KEY]) \<longrightarrow>
            getCachedSubscription parse rejects_r now u'
                (cacheSubscription stringify rejects_w written u s items) =
              (Some JNull, cacheSubscription stringify rejects_w written u s items)))) \<and>
   (rejects_r (GetItem SUBSCRIPTION_CACHE_KEY) \<or>
    rejects_r (GetItem SUBSCRIPTION_CACHE_EXPIRY_KEY) \<longrightarrow>
      getCachedSubscription parse rejects_r now u' items = (Some JNull, items)) \<and>
   (rejects_w (SetItem SUBSCRIPTION_CACHE_KEY) \<longrightarrow>
      cacheSubscription stringify rejects_w written u s items = items) \<and>
   (\<not> rejects_w (SetItem SUBSCRIPTION_CACHE_KEY) \<and>
    rejects_w (SetItem SUBSCRIPTION_CACHE_EXPIRY_KEY) \<longrightarrow>
      cacheSubscription stringify rejects_w written u s items =
        items(SUBSCRIPTION_CACHE_KEY \<mapsto> stringify (cached_json u s)))"
proof -
  let ?items = "cacheSubscription stringify rejects_w written u s items"
  have main: "?items SUBSCRIPTION_CACHE_EXPIRY_KEY = Some (String_of_nat (written + 3600000)) \<and>
      (\<not> rejects_r (GetItem SUBSCRIPTION_CACHE_KEY) \<and>
       \<not> rejects_r (GetItem SUBSCRIPTION_CACHE_EXPIRY_KEY) \<longrightarrow>
         (now \<le> written + 3600000 \<longrightarrow>
            getCachedSubscription parse rejects_r now u ?items =
              (Some (subscriptions_json s), ?items)) \<and>
         ((now > written + 3600000 \<or> u' \<noteq> u) \<and>
          \<not> rejects_r (MultiRemove [SUBSCRIPTION_CACHE_KEY, SUBSCRIPTION_CACHE_EXPIRY_KEY]) \<longrightarrow>
            getCachedSubscription parse rejects_r now u' ?items =
              (Some JNull,
               ?items(SUBSCRIPTION_CACHE_KEY := None, SUBSCRIPTION_CACHE_EXPIRY_KEY := None))) \<and>
         ((now > written + 3600000 \<or> u' \<noteq> u) \<and>
          rejects_r (MultiRemove [SUBSCRIPTION_CACHE_KEY, SUBSCRIPTION_CACHE_EXPIRY_KEY]) \<longrightarrow>
            getCachedSubscription parse rejects_r now u' ?items = (Some JNull, ?items)))"
    if codec: "parse (stringify (cached_json u s)) = Inr (cached_json u s)"
        "stringify (cached_json u s) \<noteq> []"
      and writes: "\<not> rejects_w (SetItem SUBSCRIPTION_CACHE_KEY)"
        "\<not> rejects_w (SetItem SUBSCRIPTION_CACHE_EXPIRY_KEY)"
  proof -
    have w: "?items = items(SUBSCRIPTION_CACHE_KEY \<mapsto> stringify (cached_json u s),
                 SUBSCRIPTION_CACHE_EXPIRY_KEY \<mapsto> String_of_nat (written + CACHE_DURATION_MS))"
      using writes by (rule cacheSubscription_written)
    have k: "?items SUBSCRIPTION_CACHE_KEY = Some (stringify (cached_json u s))"
      unfolding w using cache_keys_distinct by simp
    have e: "?items SUBSCRIPTION_CACHE_EXPIRY_KEY = Some (String_of_nat (written + 3600000))"
      unfolding w by (simp add: CACHE_DURATION_MS_def)
    have fresh: "getCachedSubscription parse rejects_r now u ?items =
        (Some (subscriptions_json s), ?items)"
      if "\<not> rejects_r (GetItem SUBSCRIPTION_CACHE_KEY)"
        "\<not> rejects_r (GetItem SUBSCRIPTION_CACHE_EXPIRY_KEY)" "now \<le> written + 3600000"
      using getCachedSubscription_fresh_entry_kept [where rejects = rejects_r and
          items = "?items" and stored = "stringify (cached_json u s)" and
          expiry = "written + 3600000" and parse = parse and u = u and s = s and now = now]
        that k codec e by auto
    have removed: "getCachedSubscription parse rejects_r now u' ?items =
        (Some JNull,
         ?items(SUBSCRIPTION_CACHE_KEY := None, SUBSCRIPTION_CACHE_EXPIRY_KEY := None))"
      if "\<not> rejects_r (GetItem SUBSCRIPTION_CACHE_KEY)"
        "\<not> rejects_r (GetItem SUBSCRIPTION_CACHE_EXPIRY_KEY)"
        "\<not> rejects_r (MultiRemove [SUBSCRIPTION_CACHE_KEY, SUBSCRIPTION_CACHE_EXPIRY_KEY])"
        "now > written + 3600000 \<or> u' \<noteq> u"
      using getCachedSubscription_fresh_entry [where rejects = rejects_r and items = "?items" and
          stored = "stringify (cached_json u s)" and expiry = "written + 3600000" and
          parse = parse and u = u and s = s and now = now and u' = u']
        that k codec e by auto
    have stuck: "getCachedSubscription parse rejects_r now u' ?items = (Some JNull, ?items)"
      if "\<not> rejects_r (GetItem SUBSCRIPTION_CACHE_KEY)"
        "\<not> rejects_r (GetItem SUBSCRIPTION_CACHE_EXPIRY_KEY)"
        "rejects_r (MultiRemove [SUBSCRIPTION_CACHE_KEY, SUBSCRIPTION_CACHE_EXPIRY_KEY])"
        "now > written + 3600000 \<or> u' \<noteq> u"
      using getCachedSubscription_fresh_entry_remove_rejected [where rejects = rejects_r and
          items = "?items" and stored = "stringify (cached_json u s)" and
          expiry = "written + 3600000" and parse = parse and u = u and s = s and now = now and
          u' = u']
        that k codec e by auto
    from e fresh removed stuck show ?thesis by blast
  qed
  have read_rejected: "getCachedSubscription parse rejects_r now u' items = (Some JNull, items)"
    if "rejects_r (GetItem SUBSCRIPTION_CACHE_KEY) \<or>
        rejects_r (GetItem SUBSCRIPTION_CACHE_EXPIRY_KEY)"
    using that by (rule getCachedSubscription_rejected)
  have first: "cacheSubscription stringify rejects_w written u s items = items"
    if "rejects_w (SetItem SUBSCRIPTION_CACHE_KEY)"
    using that by (rule cacheSubscription_first_rejected)
  have second: "cacheSubscription stringify rejects_w written u s items =
        items(SUBSCRIPTION_CACHE_KEY \<mapsto> stringify (cached_json u s))"
    if "\<not> rejects_w (SetItem SUBSCRIPTION_CACHE_KEY)"
      "rejects_w (SetItem SUBSCRIPTION_CACHE_EXPIRY_KEY)"
    using that by (rule cacheSubscription_second_rejected)
  show ?thesis
    apply (intro conjI impI)
    subgoal using main by blast
    subgoal using main by blast
    subgoal using main by blast
    subgoal using main by blast
    subgoal using read_rejected by blast
    subgoal using first by blast
    subgoal using second by blast
    done
qed

theorem subscription_cache_ttl_witness:
  \<open>(cacheSubscription
        (\<lambda>j. if j = cached_json ''user-1'' DEFAULT_SUBSCRIPTIONS
            then ''{"subscriptions":{"read":{"subscribed":false,"subscription_end":null},"audiobook":{"subscribed":false,"subscription_end":null},"bundle":{"subscribed":false,"subscription_end":null}},"userId":"user-1"}''
            else ''null'')
        (\<lambda>c. False) 1000 ''user-1'' DEFAULT_SUBSCRIPTIONS Map.empty) SUBSCRIPTION_CACHE_EXPIRY_KEY =
     Some ''3601000'' \<and>
   getCachedSubscription
      (\<lambda>t. if t = ''{"subscriptions":{"read":{"subscribed":false,"subscription_end":null},"audiobook":{"subscribed":false,"subscription_end":null},"bundle":{"subscribed":false,"subscription_end":null}},"userId":"user-1"}''
            then Inr (cached_json ''user-1'' DEFAULT_SUBSCRIPTIONS)
            else Inl (Error_obj ''JSON Parse error''))
      (\<lambda>c. False) 3601000 ''user-1''
      (cacheSubscription
        (\<lambda>j. if j = cached_json ''user-1'' DEFAULT_SUBSCRIPTIONS
            then ''{"subscriptions":{"read":{"subscribed":false,"subscription_end":null},"audiobook":{"subscribed":false,"subscription_end":null},"bundle":{"subscribed":false,"subscription_end":null}},"userId":"user-1"}''
            else ''null'')
        (\<lambda>c. False) 1000 ''user-1'' DEFAULT_SUBSCRIPTIONS Map.empty) =
     (Some (subscriptions_json DEFAULT_SUBSCRIPTIONS), (cacheSubscription
        (\<lambda>j. if j = cached_json ''user-1'' DEFAULT_SUBSCRIPTIONS
            then ''{"subscriptions":{"read":{"subscribed":false,"subscription_end":null},"audiobook":{"subscribed":false,"subscription_end":null},"bundle":{"subscribed":false,"subscription_end":null}},"userId":"user-1"}''
            else ''null'')
        (\<lambda>c. False) 1000 ''user-1'' DEFAULT_SUBSCRIPTIONS Map.empty)) \<and>
   getCachedSubscription
      (\<lambda>t. if t = ''{"subscriptions":{"read":{"subscribed":false,"subscription_end":null},"audiobook":{"subscribed":false,"subscription_end":null},"bundle":{"subscribed":false,"subscription_end":null}},"userId":"user-1"}''
            then Inr (cached_json ''user-1'' DEFAULT_SUBSCRIPTIONS)
            else Inl (Error_obj ''JSON Parse error''))
      (\<lambda>c. False) 3601001 ''user-1''
      (cacheSubscription
        (\<lambda>j. if j = cached_json ''user-1'' DEFAULT_SUBSCRIPTIONS
            then ''{"subscriptions":{"read":{"subscribed":false,"subscription_end":null},"audiobook":{"subscribed":false,"subscription_end":null},"bundle":{"subscribed":false,"subscription_end":null}},"userId":"user-1"}''
            else ''null'')
        (\<lambda>c. False) 1000 ''user-1'' DEFAULT_SUBSCRIPTIONS Map.empty) =
     (Some JNull, (cacheSubscription
        (\<lambda>j. if j = cached_json ''user-1'' DEFAULT_SUBSCRIPTIONS
            then ''{"subscriptions":{"read":{"subscribed":false,"subscription_end":null},"audiobook":{"subscribed":false,"subscription_end":null},"bundle":{"subscribed":false,"subscription_end":null}},"userId":"user-1"}''
            else ''null'')
        (\<lambda>c. False) 1000 ''user-1'' DEFAULT_SUBSCRIPTIONS Map.empty)(SUBSCRIPTION_CACHE_KEY := None, SUBSCRIPTION_CACHE_EXPIRY_KEY := None)) \<and>
   getCachedSubscription
      (\<lambda>t. if t = ''{"subscriptions":{"read":{"subscribed":false,"subscription_end":null},"audiobook":{"subscribed":false,"subscription_end":null},"bundle":{"subscribed":false,"subscription_end":null}},"userId":"user-1"}''
            then Inr (cached_json ''user-1'' DEFAULT_SUBSCRIPTIONS)
            else Inl (Error_obj ''JSON Parse error''))
      (\<lambda>c. False) 2000 ''user-2''
      (cacheSubscription
        (\<lambda>j. if j = cached_json ''user-1'' DEFAULT_SUBSCRIPTIONS
            then ''{"subscriptions":{"read":{"subscribed":false,"subscription_end":null},"audiobook":{"subscribed":false,"subscription_end":null},"bundle":{"subscribed":false,"subscription_end":null}},"userId":"user-1"}''
            else ''null'')
        (\<lambda>c. False) 1000 ''user-1'' DEFAULT_SUBSCRIPTIONS Map.empty) =
     (Some JNull, (cacheSubscription
        (\<lambda>j. if j = cached_json ''user-1'' DEFAULT_SUBSCRIPTIONS
            then ''{"subscriptions":{"read":{"subscribed":false,"subscription_end":null},"audiobook":{"subscribed":false,"subscription_end":null},"bundle":{"subscribed":false,"subscription_end":null}},"userId":"user-1"}''
            else ''null'')
        (\<lambda>c. False) 1000 ''user-1'' DEFAULT_SUBSCRIPTIONS Map.empty)(SUBSCRIPTION_CACHE_KEY := None, SUBSCRIPTION_CACHE_EXPIRY_KEY := None)) \<and>
   getCachedSubscription
      (\<lambda>t. if t = ''{"subscriptions":{"read":{"subscribed":false,"subscription_end":null},"audiobook":{"subscribed":false,"subscription_end":null},"bundle":{"subscribed":false,"subscription_end":null}},"userId":"user-1"}''
            then Inr (cached_json ''user-1'' DEFAULT_SUBSCRIPTIONS)
            else Inl (Error_obj ''JSON Parse error''))
      (\<lambda>c. c = MultiRemove [SUBSCRIPTION_CACHE_KEY, SUBSCRIPTION_CACHE_EXPIRY_KEY]) 3601001 ''user-1''
      (cacheSubscription
        (\<lambda>j. if j = cached_json ''user-1'' DEFAULT_SUBSCRIPTIONS
            then ''{"subscriptions":{"read":{"subscribed":false,"subscription_end":null},"audiobook":{"subscribed":false,"subscription_end":null},"bundle":{"subscribed":false,"subscription_end":null}},"userId":"user-1"}''
            else ''null'')
        (\<lambda>c. False) 1000 ''user-1'' DEFAULT_SUBSCRIPTIONS Map.empty) =
     (Some JNull, (cacheSubscription
        (\<lambda>j. if j = cached_json ''user-1'' DEFAULT_SUBSCRIPTIONS
            then ''{"subscriptions":{"read":{"subscribed":false,"subscription_end":null},"audiobook":{"subscribed":false,"subscription_end":null},"bundle":{"subscribed":false,"subscription_end":null}},"userId":"user-1"}''
            else ''null'')
        (\<lambda>c. False) 1000 ''user-1'' DEFAULT_SUBSCRIPTIONS Map.empty)) \<and>
   getCachedSubscription
      (\<lambda>t. if t = ''{"subscriptions":{"read":{"subscribed":false,"subscription_end":null},"audiobook":{"subscribed":false,"subscription_end":null},"bundle":{"subscribed":false,"subscription_end":null}},"userId":"user-1"}''
            then Inr (cached_json ''user-1'' DEFAULT_SUBSCRIPTIONS)
            else Inl (Error_obj ''JSON Parse error''))
      (\<lambda>c. c = GetItem SUBSCRIPTION_CACHE_EXPIRY_KEY) 2000 ''user-1''
      (cacheSubscription
        (\<lambda>j. if j = cached_json ''user-1'' DEFAULT_SUBSCRIPTIONS
            then ''{"subscriptions":{"read":{"subscribed":false,"subscription_end":null},"audiobook":{"subscribed":false,"subscription_end":null},"bundle":{"subscribed":false,"subscription_end":null}},"userId":"user-1"}''
            else ''null'')
        (\<lambda>c. False) 1000 ''user-1'' DEFAULT_SUBSCRIPTIONS Map.empty) =
     (Some JNull, (cacheSubscription
        (\<lambda>j. if j = cached_json ''user-1'' DEFAULT_SUBSCRIPTIONS
            then ''{"subscriptions":{"read":{"subscribed":false,"subscription_end":null},"audiobook":{"subscribed":false,"subscription_end":null},"bundle":{"subscribed":false,"subscription_end":null}},"userId":"user-1"}''
            else ''null'')
        (\<lambda>c. False) 1000 ''user-1'' DEFAULT_SUBSCRIPTIONS Map.empty)) \<and>
   (cacheSubscription
        (\<lambda>j. if j = cached_json ''user-1'' DEFAULT_SUBSCRIPTIONS
            then ''{"subscriptions":{"read":{"subscribed":false,"subscription_end":null},"audiobook":{"subscribed":false,"subscription_end":null},"bundle":{"subscribed":false,"subscription_end":null}},"userId":"user-1"}''
            else ''null'')
        (\<lambda>c. c = SetItem SUBSCRIPTION_CACHE_KEY) 1000 ''user-1'' DEFAULT_SUBSCRIPTIONS Map.empty) = Map.empty \<and>
   (cacheSubscription
        (\<lambda>j. if j = cached_json ''user-1'' DEFAULT_SUBSCRIPTIONS
            then ''{"subscriptions":{"read":{"subscribed":false,"subscription_end":null},"audiobook":{"subscribed":false,"subscription_end":null},"bundle":{"subscribed":false,"subscription_end":null}},"userId":"user-1"}''
            else ''null'')
        (\<lambda>c. c = SetItem SUBSCRIPTION_CACHE_EXPIRY_KEY) 1000 ''user-1'' DEFAULT_SUBSCRIPTIONS Map.empty) =
     [SUBSCRIPTION_CACHE_KEY \<mapsto> ''{"subscriptions":{"read":{"subscribed":false,"subscription_end":null},"audiobook":{"subscribed":false,"subscription_end":null},"bundle":{"subscribed":false,"subscription_end":null}},"userId":"user-1"}'']\<close>
proof -
  let ?text = \<open>''{"subscriptions":{"read":{"subscribed":false,"subscription_end":null},"audiobook":{"subscribed":false,"subscription_end":null},"bundle":{"subscribed":false,"subscription_end":null}},"userId":"user-1"}''\<close>
  let ?stringify = "\<lambda>j. if j = cached_json ''user-1'' DEFAULT_SUBSCRIPTIONS then ?text else ''null''"
  let ?parse = "\<lambda>t. if t = ?text then Inr (cached_json ''user-1'' DEFAULT_SUBSCRIPTIONS)
                    else Inl (Error_obj ''JSON Parse error'')"
  let ?ok = "\<lambda>c::storage_call. False"
  let ?remove = "\<lambda>c. c = MultiRemove [SUBSCRIPTION_CACHE_KEY, SUBSCRIPTION_CACHE_EXPIRY_KEY]"
  let ?get = "\<lambda>c. c = GetItem SUBSCRIPTION_CACHE_EXPIRY_KEY"
  let ?set1 = "\<lambda>c. c = SetItem SUBSCRIPTION_CACHE_KEY"
  let ?set2 = "\<lambda>c. c = SetItem SUBSCRIPTION_CACHE_EXPIRY_KEY"
  let ?items = "cacheSubscription ?stringify ?ok 1000 ''user-1'' DEFAULT_SUBSCRIPTIONS Map.empty"
  note a = subscription_cache_ttl [where stringify = ?stringify and parse = ?parse and
      rejects_w = ?ok and rejects_r = ?ok and u = "''user-1''" and u' = "''user-1''" and
      s = DEFAULT_SUBSCRIPTIONS and written = 1000 and items = Map.empty and now = 3601000]
  note b = subscription_cache_ttl [where stringify = ?stringify and parse = ?parse and
      rejects_w = ?ok and rejects_r = ?ok and u = "''user-1''" and u' = "''user-1''" and
      s = DEFAULT_SUBSCRIPTIONS and written = 1000 and items = Map.empty and now = 3601001]
  note c = subscription_cache_ttl [where stringify = ?stringify and parse = ?parse and
      rejects_w = ?ok and rejects_r = ?ok and u = "''user-1''" and u' = "''user-2''" and
      s = DEFAULT_SUBSCRIPTIONS and written = 1000 and items = Map.empty and now = 2000]
  note d = subscription_cache_ttl [where stringify = ?stringify and parse = ?parse and
      rejects_w = ?ok and rejects_r = ?remove and u = "''user-1''" and u' = "''user-1''" and
      s = DEFAULT_SUBSCRIPTIONS and written = 1000 and items = Map.empty and now = 3601001]
  note e = subscription_cache_ttl [where stringify = ?stringify and parse = ?parse and
      rejects_w = ?ok and rejects_r = ?get and u = "''user-1''" and u' = "''user-1''" and
      s = DEFAULT_SUBSCRIPTIONS and written = 1000 and items = ?items and now = 2000]
  note f = subscription_cache_ttl [where stringify = ?stringify and parse = ?parse and
      rejects_w = ?set1 and rejects_r = ?ok and u = "''user-1''" and u' = "''user-1''" and
      s = DEFAULT_SUBSCRIPTIONS and written = 1000 and items = Map.empty and now = 2000]
  note g = subscription_cache_ttl [where stringify = ?stringify and parse = ?parse and
      rejects_w = ?set2 and rejects_r = ?ok and u = "''user-1''" and u' = "''user-1''" and
      s = DEFAULT_SUBSCRIPTIONS and written = 1000 and items = Map.empty and now = 2000]
  have s: "String_of_nat (1000 + 3600000) = ''3601000''"
    by (simp add: String_of_nat.simps digit_char_def)
  have k: "SUBSCRIPTION_CACHE_KEY \<noteq> SUBSCRIPTION_CACHE_EXPIRY_KEY"
    using cache_keys_distinct by simp
  have 1: "?items SUBSCRIPTION_CACHE_EXPIRY_KEY = Some ''3601000''"
    using a s by simp
  have 2: "getCachedSubscription ?parse ?ok 3601000 ''user-1'' ?items =
      (Some (subscriptions_json DEFAULT_SUBSCRIPTIONS), ?items)"
    using a by simp
  have 3: "getCachedSubscription ?parse ?ok 3601001 ''user-1'' ?items =
      (Some JNull, ?items(SUBSCRIPTION_CACHE_KEY := None, SUBSCRIPTION_CACHE_EXPIRY_KEY := None))"
    using b by simp
  have 4: "getCachedSubscription ?parse ?ok 2000 ''user-2'' ?items =
      (Some JNull, ?items(SUBSCRIPTION_CACHE_KEY := None, SUBSCRIPTION_CACHE_EXPIRY_KEY := None))"
    using c by simp
  have 5: "getCachedSubscription ?parse ?remove 3601001 ''user-1'' ?items = (Some JNull, ?items)"
    using d k by simp
  have 6: "getCachedSubscription ?parse ?get 2000 ''user-1'' ?items = (Some JNull, ?items)"
    using e by simp
  have 7: "cacheSubscription ?stringify ?set1 1000 ''user-1'' DEFAULT_SUBSCRIPTIONS Map.empty =
      Map.empty"
    using f by simp
  have 8: "cacheSubscription ?stringify ?set2 1000 ''user-1'' DEFAULT_SUBSCRIPTIONS Map.empty =
      [SUBSCRIPTION_CACHE_KEY \<mapsto> ?text]"
    using g k by simp
  from 1 2 3 4 5 6 7 8 show ?thesis by blast
qed

text \<open>
  Stated without regard to rejection, the property fails, since every storage call may reject
  and both functions swallow the rejection: a read that rejects makes \<^verbatim>\<open>getCachedSubscription\<close>
  return \<^verbatim>\<open>null\<close> for an entry that has not expired; a \<^verbatim>\<open>multiRemove\<close> that rejects
  leaves an expired entry in place; a \<^verbatim>\<open>setItem\<close> that rejects lets \<^verbatim>\<open>cacheSubscription\<close>
  complete with nothing written.
\<close>

theorem subscription_cache_rejection_counterexample:
  "fst (getCachedSubscription
      (\<lambda>t. if t = ''cached-text'' then Inr (cached_json ''user-1'' DEFAULT_SUBSCRIPTIONS)
            else Inl (Error_obj ''JSON Parse error''))
      (\<lambda>c. c = GetItem SUBSCRIPTION_CACHE_KEY) 2000 ''user-1''
      (cacheSubscription (\<lambda>j. ''cached-text'') (\<lambda>c. False) 1000 ''user-1''
         DEFAULT_SUBSCRIPTIONS Map.empty)) = Some JNull \<and>
   (2000::nat) \<le> 1000 + 3600000 \<and>
   snd (getCachedSubscription
      (\<lambda>t. if t = ''cached-text'' then Inr (cached_json ''user-1'' DEFAULT_SUBSCRIPTIONS)
            else Inl (Error_obj ''JSON Parse error''))
      (\<lambda>c. c = MultiRemove [SUBSCRIPTION_CACHE_KEY, SUBSCRIPTION_CACHE_EXPIRY_KEY]) 3601001 ''user-1''
      (cacheSubscription (\<lambda>j. ''cached-text'') (\<lambda>c. False) 1000 ''user-1''
         DEFAULT_SUBSCRIPTIONS Map.empty)) SUBSCRIPTION_CACHE_KEY = Some ''cached-text'' \<and>
   (3601001::nat) > 1000 + 3600000 \<and>
   cacheSubscription (\<lambda>j. ''cached-text'') (\<lambda>c. c = SetItem SUBSCRIPTION_CACHE_KEY) 1000 ''user-1''
         DEFAULT_SUBSCRIPTIONS Map.empty SUBSCRIPTION_CACHE_KEY = None"
  by (simp add: getCachedSubscription_def cacheSubscription_def CACHE_DURATION_MS_def
        SUBSCRIPTION_CACHE_KEY_def SUBSCRIPTION_CACHE_EXPIRY_KEY_def
        String_of_nat.simps digit_char_def parseInt_def js_whitespace_def is_digit_def
        digits_value_def digit_val_def)

section \<open>Properties of the check in flight\<close>

lemma check_step_slot_agrees:
  assumes "slot_agrees st" and "\<not> forced ev"
  shows "slot_agrees (check_step st ev)"
proof (cases ev)
  case (Call signed_in force)
  with assms show ?thesis
    by (auto simp: slot_agrees_def checkSubscription_call_def Let_def split: option.splits)
next
  case (Complete p)
  with assms show ?thesis
    by (auto simp: slot_agrees_def performCheck_finally_def split: option.splits)
qed

lemma foldl_check_step_slot_agrees:
  assumes "slot_agrees st" and "\<forall>ev \<in> set evs. \<not> forced ev"
  shows "slot_agrees (foldl check_step st evs)"
  using assms
proof (induction evs arbitrary: st)
  case Nil
  then show ?case by simp
next
  case (Cons ev evs)
  then have "slot_agrees (check_step st ev)" by (simp add: check_step_slot_agrees)
  with Cons show ?case by simp
qed

text \<open>
  C7 (as amended). A call of \<^verbatim>\<open>checkSubscription\<close> without \<^verbatim>\<open>force\<close>, made with session
  and user present while the ref holds a promise, returns that promise and starts no
  check: the state is unchanged. A call made without session or user returns
  \<^verbatim>\<open>undefined\<close> and starts no check either, whatever the ref holds and whether forced
  or not. The \<^verbatim>\<open>finally\<close> block of any pending run clears the ref. As long as no call is
  forced, at most one run is pending and the ref holds its promise exactly while it is
  pending.
\<close>

theorem checkSubscription_in_flight:
  "(signed_in \<and> \<not> force \<and> inFlight st = Some p \<longrightarrow>
      checkSubscription_call signed_in force st = (Returned_in_flight p, st)) \<and>
   (\<not> signed_in \<longrightarrow>
      checkSubscription_call signed_in force st = (Returned_undefined, st)) \<and>
   (q \<in> set (pending st) \<longrightarrow>
      inFlight (performCheck_finally q st) = None \<and>
      q \<notin> set (pending (performCheck_finally q st))) \<and>
   ((\<forall>ev \<in> set evs. \<not> forced ev) \<longrightarrow>
      (case inFlight (foldl check_step initial_check_state evs) of
         None \<Rightarrow> pending (foldl check_step initial_check_state evs) = []
       | Some r \<Rightarrow> pending (foldl check_step initial_check_state evs) = [r]))"
proof (intro conjI impI)
  assume "signed_in \<and> \<not> force \<and> inFlight st = Some p"
  then show "checkSubscription_call signed_in force st = (Returned_in_flight p, st)"
    by (simp add: checkSubscription_call_def Let_def)
next
  assume "\<not> signed_in"
  then show "checkSubscription_call signed_in force st = (Returned_undefined, st)"
    by (simp add: checkSubscription_call_def Let_def)
next
  assume "q \<in> set (pending st)"
  then show "inFlight (performCheck_finally q st) = None"
    and "q \<notin> set (pending (performCheck_finally q st))"
    by (simp_all add: performCheck_finally_def)
next
  assume "\<forall>ev \<in> set evs. \<not> forced ev"
  moreover have "slot_agrees initial_check_state"
    by (simp add: slot_agrees_def initial_check_state_def)
  ultimately have "slot_agrees (foldl check_step initial_check_state evs)"
    by (simp add: foldl_check_step_slot_agrees)
  then show "case inFlight (foldl check_step initial_check_state evs) of
         None \<Rightarrow> pending (foldl check_step initial_check_state evs) = []
       | Some r \<Rightarrow> pending (foldl check_step initial_check_state evs) = [r]"
    by (simp add: slot_agrees_def)
qed

theorem checkSubscription_in_flight_witness:
  "checkSubscription_call True False \<lparr>inFlight = Some 0, pending = [0], next_promise = 1\<rparr> =
     (Returned_in_flight 0, \<lparr>inFlight = Some 0, pending = [0], next_promise = 1\<rparr>) \<and>
   checkSubscription_call False False \<lparr>inFlight = Some 0, pending = [0], next_promise = 1\<rparr> =
     (Returned_undefined, \<lparr>inFlight = Some 0, pending = [0], next_promise = 1\<rparr>) \<and>
   performCheck_finally 0 \<lparr>inFlight = Some 0, pending = [0], next_promise = 1\<rparr> =
     \<lparr>inFlight = None, pending = [], next_promise = 1\<rparr> \<and>
   foldl check_step initial_check_state [Call True False, Call True False, Complete 0, Call True False] =
     \<lparr>inFlight = Some 1, pending = [1], next_promise = 2\<rparr>"
  using checkSubscription_in_flight [of True False "\<lparr>inFlight = Some 0, pending = [0], next_promise = 1\<rparr>"
      0 0 "[Call True False, Call True False, Complete 0, Call True False]"]
    checkSubscription_in_flight [of False False "\<lparr>inFlight = Some 0, pending = [0], next_promise = 1\<rparr>"
      0 0 "[]"]
  by (simp add: checkSubscription_call_def Let_def performCheck_finally_def initial_check_state_def)

text \<open>
  With a forced call in the past, a call without \<^verbatim>\<open>force\<close> can start a check while
  another is pending: the first check is started, a forced call starts a second one, the
  first completes and clears the ref, and the next unforced call finds the ref empty
  although the second check is still pending. And a call made without session or
  user returns \<^verbatim>\<open>undefined\<close>, not the pending promise.
\<close>

theorem checkSubscription_in_flight_counterexample:
  "foldl check_step initial_check_state [Call True False, Call True True, Complete 0] =
     \<lparr>inFlight = None, pending = [1], next_promise = 2\<rparr> \<and>
   checkSubscription_call True False \<lparr>inFlight = None, pending = [1], next_promise = 2\<rparr> =
     (Started 2, \<lparr>inFlight = Some 2, pending = [1, 2], next_promise = 3\<rparr>) \<and>
   checkSubscription_call False False \<lparr>inFlight = Some 0, pending = [0], next_promise = 1\<rparr> =
     (Returned_undefined, \<lparr>inFlight = Some 0, pending = [0], next_promise = 1\<rparr>)"
  by (simp add: checkSubscription_call_def Let_def performCheck_finally_def initial_check_state_def)

section \<open>Properties of the bookmark rollback\<close>

lemma addBookmark_after_getUser_signed_in:
  "addBookmark_after_getUser (Some u) now iso_now surah verse n st =
     (Add_awaiting_insert
        \<lparr>bookmark_id = ''temp-'' @ String_of_nat now, surah_number = surah,
         verse_number = verse, bookmark_note = n, created_at = iso_now\<rparr>,
      st\<lparr>bookmarks :=
           \<lparr>bookmark_id = ''temp-'' @ String_of_nat now, surah_number = surah,
            verse_number = verse, bookmark_note = n, created_at = iso_now\<rparr> # bookmarks st\<rparr>)"
  by (simp add: addBookmark_after_getUser_def Let_def)

lemma addBookmark_after_insert_failure:
  assumes "inserted \<noteq> Backend_ok"
  shows "bookmarks (addBookmark_after_insert inserted opt surah verse st) =
           filter (\<lambda>b. bookmark_id b \<noteq> bookmark_id opt) (bookmarks st)"
  using assms by (cases inserted) (simp_all add: addBookmark_after_insert_def Let_def)

lemma addBookmark_failure_bookmarks:
  assumes "inserted \<noteq> Backend_ok"
  shows "bookmarks (addBookmark (Some u) now iso_now inserted surah verse n st) =
           filter (\<lambda>b. bookmark_id b \<noteq> ''temp-'' @ String_of_nat now) (bookmarks st)"
  using assms
  by (simp add: addBookmark_def addBookmark_after_getUser_signed_in
        addBookmark_after_insert_failure)

lemma removeBookmark_after_delete_failure:
  assumes "deleted \<noteq> Backend_ok"
  shows "bookmarks (removeBookmark_after_delete deleted previous surah verse st) = previous"
  using assms by (cases deleted) (simp_all add: removeBookmark_after_delete_def)

lemma removeBookmark_failure_bookmarks:
  assumes "deleted \<noteq> Backend_ok"
  shows "bookmarks (removeBookmark (Some u) deleted rendered surah verse st) = rendered"
  using assms
  by (simp add: removeBookmark_def removeBookmark_after_getUser_def Let_def
        removeBookmark_after_delete_failure)

text \<open>
  C6 (as amended). For a signed-in user, \<^verbatim>\<open>addBookmark\<close> prepends to the list an optimistic
  bookmark whose id is \<^verbatim>\<open>temp-<Date.now()>\<close> and awaits the insert. When the insert fails,
  the list becomes the list as it is at that moment with every bookmark carrying the
  optimistic id removed. So when nothing else updates the list while the call runs, the
  list is left as the list before the call with the bookmarks of that id removed, and it
  equals the list before the call whenever no bookmark of that list carries that id.

  When the delete of \<^verbatim>\<open>removeBookmark\<close> fails, the list becomes the copy the call took of
  the list of the render it was made in, whatever the list is at that moment. So it is
  the list before the call whenever the rendered list was the list before the call.
\<close>

theorem bookmark_rollback:
  "fst (addBookmark_after_getUser (Some u) now iso_now surah verse n st) =
     Add_awaiting_insert
       \<lparr>bookmark_id = ''temp-'' @ String_of_nat now, surah_number = surah,
        verse_number = verse, bookmark_note = n, created_at = iso_now\<rparr> \<and>
   bookmarks (snd (addBookmark_after_getUser (Some u) now iso_now surah verse n st)) =
     \<lparr>bookmark_id = ''temp-'' @ String_of_nat now, surah_number = surah,
      verse_number = verse, bookmark_note = n, created_at = iso_now\<rparr> # bookmarks st \<and>
   (inserted \<noteq> Backend_ok \<longrightarrow>
      bookmarks (addBookmark_after_insert inserted opt surah verse st') =
        filter (\<lambda>b. bookmark_id b \<noteq> bookmark_id opt) (bookmarks st') \<and>
      bookmarks (addBookmark (Some u) now iso_now inserted surah verse n st) =
        filter (\<lambda>b. bookmark_id b \<noteq> ''temp-'' @ String_of_nat now) (bookmarks st) \<and>
      ((\<forall>b \<in> set (bookmarks st). bookmark_id b \<noteq> ''temp-'' @ String_of_nat now) \<longrightarrow>
         bookmarks (addBookmark (Some u) now iso_now inserted surah verse n st) = bookmarks st)) \<and>
   fst (removeBookmark_after_getUser (Some u) rendered surah verse st) =
     Remove_awaiting_delete rendered \<and>
   (deleted \<noteq> Backend_ok \<longrightarrow>
      bookmarks (removeBookmark_after_delete deleted rendered surah verse st') = rendered \<and>
      bookmarks (removeBookmark (Some u) deleted rendered surah verse st) = rendered \<and>
      bookmarks (removeBookmark (Some u) deleted (bookmarks st) surah verse st) = bookmarks st)"
proof -
  have a: "bookmarks (addBookmark (Some u) now iso_now inserted surah verse n st) = bookmarks st"
    if f: "inserted \<noteq> Backend_ok"
      and fresh: "\<forall>b \<in> set (bookmarks st). bookmark_id b \<noteq> ''temp-'' @ String_of_nat now"
  proof -
    from fresh
    have "filter (\<lambda>b. bookmark_id b \<noteq> ''temp-'' @ String_of_nat now) (bookmarks st) = bookmarks st"
      by (simp add: filter_id_conv)
    with addBookmark_failure_bookmarks [OF f, of u now iso_now surah verse n st]
    show ?thesis by simp
  qed
  show ?thesis
    apply (intro conjI impI)
    subgoal by (simp add: addBookmark_after_getUser_signed_in)
    subgoal by (simp add: addBookmark_after_getUser_signed_in)
    subgoal by (rule addBookmark_after_insert_failure)
    subgoal by (rule addBookmark_failure_bookmarks)
    subgoal using a by blast
    subgoal by (simp add: removeBookmark_after_getUser_def Let_def)
    subgoal by (rule removeBookmark_after_delete_failure)
    subgoal by (rule removeBookmark_failure_bookmarks)
    subgoal by (rule removeBookmark_failure_bookmarks)
    done
qed

theorem bookmark_rollback_witness:
  "Backend_error (Some ''23505'') \<noteq> Backend_ok \<and>
   bookmarks (addBookmark (Some ''user-1'') 1700000000123 ''2023-11-14T22:13:20.123Z''
       (Backend_error (Some ''23505'')) 2 255 None
       \<lparr>bookmarks = [\<lparr>bookmark_id = ''b-1'', surah_number = 2, verse_number = 255, bookmark_note = None,
                       created_at = ''2023-01-01T00:00:00.000Z''\<rparr>],
        toasts = [], fetches_started = 0\<rparr>)
     = [\<lparr>bookmark_id = ''b-1'', surah_number = 2, verse_number = 255, bookmark_note = None,
         created_at = ''2023-01-01T00:00:00.000Z''\<rparr>] \<and>
   bookmarks (removeBookmark (Some ''user-1'') (Backend_rejected (Error_obj ''Network request failed''))
       [\<lparr>bookmark_id = ''b-1'', surah_number = 2, verse_number = 255, bookmark_note = None,
         created_at = ''2023-01-01T00:00:00.000Z''\<rparr>]
       2 255
       \<lparr>bookmarks = [\<lparr>bookmark_id = ''b-1'', surah_number = 2, verse_number = 255, bookmark_note = None,
                       created_at = ''2023-01-01T00:00:00.000Z''\<rparr>],
        toasts = [], fetches_started = 0\<rparr>)
     = [\<lparr>bookmark_id = ''b-1'', surah_number = 2, verse_number = 255, bookmark_note = None,
         created_at = ''2023-01-01T00:00:00.000Z''\<rparr>]"
  using bookmark_rollback [where inserted = "Backend_error (Some ''23505'')" and u = "''user-1''" and
      now = 1700000000123 and iso_now = "''2023-11-14T22:13:20.123Z''" and surah = 2 and
      verse = 255 and n = None and
      st = "\<lparr>bookmarks = [\<lparr>bookmark_id = ''b-1'', surah_number = 2, verse_number = 255,
                       bookmark_note = None, created_at = ''2023-01-01T00:00:00.000Z''\<rparr>],
        toasts = [], fetches_started = 0\<rparr>" and
      deleted = "Backend_rejected (Error_obj ''Network request failed'')" and
      rendered = "[\<lparr>bookmark_id = ''b-1'', surah_number = 2, verse_number = 255,
                       bookmark_note = None, created_at = ''2023-01-01T00:00:00.000Z''\<rparr>]"]
  by (simp add: String_of_nat.simps digit_char_def)

text \<open>
  The list after a failed insert need not be the list before the call. First, the list
  may be updated while the insert is pending: here a \<^verbatim>\<open>fetchBookmarks\<close> run stores the rows
  \<^verbatim>\<open>b-1\<close> and \<^verbatim>\<open>b-2\<close> between the optimistic update and the rollback, and the list ends
  as these two rows although it held only \<^verbatim>\<open>b-1\<close> before the call, no id being shared.
  Second, the rollback filters by id and the optimistic id is made from the clock: a list
  that already holds a bookmark with that id (here \<^verbatim>\<open>temp-5\<close> at clock value 5) loses it
  as well.
\<close>

theorem addBookmark_rollback_counterexample:
  "(case addBookmark_after_getUser (Some ''user-1'') 1700000000123 ''2023-11-14T22:13:20.123Z''
           2 255 None
           \<lparr>bookmarks = [\<lparr>bookmark_id = ''b-1'', surah_number = 1, verse_number = 1,
                           bookmark_note = None, created_at = ''2023-01-01T00:00:00.000Z''\<rparr>],
            toasts = [], fetches_started = 0\<rparr> of
      (Add_returned, st1) \<Rightarrow> []
    | (Add_awaiting_insert optimisticBookmark, st1) \<Rightarrow>
        bookmarks (addBookmark_after_insert (Backend_error (Some ''23505'')) optimisticBookmark 2 255
          (fetchBookmarks_setBookmarks
             (Some [\<lparr>bookmark_id = ''b-2'', surah_number = 2, verse_number = 255,
                      bookmark_note = None, created_at = ''2023-11-14T22:13:19.000Z''\<rparr>,
                    \<lparr>bookmark_id = ''b-1'', surah_number = 1, verse_number = 1,
                      bookmark_note = None, created_at = ''2023-01-01T00:00:00.000Z''\<rparr>])
             st1)))
     = [\<lparr>bookmark_id = ''b-2'', surah_number = 2, verse_number = 255,
          bookmark_note = None, created_at = ''2023-11-14T22:13:19.000Z''\<rparr>,
        \<lparr>bookmark_id = ''b-1'', surah_number = 1, verse_number = 1,
          bookmark_note = None, created_at = ''2023-01-01T00:00:00.000Z''\<rparr>] \<and>
   [\<lparr>bookmark_id = ''b-2'', surah_number = 2, verse_number = 255,
      bookmark_note = None, created_at = ''2023-11-14T22:13:19.000Z''\<rparr>,
    \<lparr>bookmark_id = ''b-1'', surah_number = 1, verse_number = 1,
      bookmark_note = None, created_at = ''2023-01-01T00:00:00.000Z''\<rparr>]
     \<noteq> [\<lparr>bookmark_id = ''b-1'', surah_number = 1, verse_number = 1,
           bookmark_note = None, created_at = ''2023-01-01T00:00:00.000Z''\<rparr>] \<and>
   bookmarks (addBookmark (Some ''user-1'') 5 ''1970-01-01T00:00:00.005Z''
       (Backend_error (Some ''23505'')) 1 1 None
       \<lparr>bookmarks = [\<lparr>bookmark_id = ''temp-5'', surah_number = 1, verse_number = 1,
                       bookmark_note = None, created_at = ''1970-01-01T00:00:00.005Z''\<rparr>],
        toasts = [], fetches_started = 0\<rparr>) = [] \<and>
   bookmarks \<lparr>bookmarks = [\<lparr>bookmark_id = ''temp-5'', surah_number = 1, verse_number = 1,
                       bookmark_note = None, created_at = ''1970-01-01T00:00:00.005Z''\<rparr>],
        toasts = [], fetches_started = 0\<rparr> \<noteq> []"
  by (simp add: addBookmark_def addBookmark_after_getUser_def addBookmark_after_insert_def
        fetchBookmarks_setBookmarks_def Let_def String_of_nat.simps digit_char_def)

section \<open>Properties of the footnote stripping\<close>

lemma ascii_lower_lt [simp]: "ascii_lower c = CHR ''<'' \<longleftrightarrow> c = CHR ''<''"
proof -
  have "l \<noteq> CHR ''<''"
    if "map_of (zip ''ABCDEFGHIJKLMNOPQRSTUVWXYZ'' ''abcdefghijklmnopqrstuvwxyz'') c = Some l" for l
  proof -
    from that have "(c, l) \<in> set (zip ''ABCDEFGHIJKLMNOPQRSTUVWXYZ'' ''abcdefghijklmnopqrstuvwxyz'')"
      by (rule map_of_SomeD)
    then have "l \<in> set ''abcdefghijklmnopqrstuvwxyz''" by (rule set_zip_rightD)
    then show ?thesis by auto
  qed
  moreover have "map_of (zip ''ABCDEFGHIJKLMNOPQRSTUVWXYZ'' ''abcdefghijklmnopqrstuvwxyz'') CHR ''<'' = None"
    by simp
  ultimately show ?thesis
    by (auto simp: ascii_lower_def split: option.splits)
qed

lemma ascii_lower_lt' [simp]: "CHR ''<'' = ascii_lower c \<longleftrightarrow> c = CHR ''<''"
  using ascii_lower_lt [of c] by (simp only: eq_commute [of "CHR ''<''"])

lemma ascii_lower_of_lt [simp]: "ascii_lower CHR ''<'' = CHR ''<''"
  by simp

lemma lt_in_lowered: "CHR ''<'' \<in> set (map ascii_lower xs) \<longleftrightarrow> CHR ''<'' \<in> set xs"
  by (induction xs) auto

lemma ascii_lower_literals:
  "map ascii_lower ''<footnote'' = ''<footnote''"
  "map ascii_lower ''</footnote>'' = ''</footnote>''"
  "ascii_lower CHR ''/'' = CHR ''/''"
  "ascii_lower CHR ''f'' = CHR ''f''"
  by (simp_all add: ascii_lower_def)

lemma strip_prefix_ci_name:
  "map ascii_lower name = map ascii_lower p \<Longrightarrow> strip_prefix_ci p (name @ r) = Some r"
proof (induction p arbitrary: name)
  case Nil
  then show ?case by simp
next
  case (Cons a p)
  then obtain c cs where "name = c # cs" "ascii_lower c = ascii_lower a"
    "map ascii_lower cs = map ascii_lower p"
    by (cases name) auto
  with Cons.IH show ?case by simp
qed

lemma strip_prefix_ci_no_lt:
  assumes "s = [] \<or> hd s \<noteq> CHR ''<''"
  shows "strip_prefix_ci (CHR ''<'' # ps) s = None"
  using assms by (cases s) auto

lemma match_none_no_lt:
  assumes "s = [] \<or> hd s \<noteq> CHR ''<''"
  shows "match_open s = None" and "match_close s = None" and "match_self_closing s = None"
  using strip_prefix_ci_no_lt [OF assms]
  by (simp_all add: match_open_def match_close_def match_self_closing_def)

text \<open>An opening name and a closing name differ in their second character.\<close>

lemma open_name_shape:
  assumes "map ascii_lower name = ''<footnote''"
  obtains b rest where "name = CHR ''<'' # b # rest" "ascii_lower b = CHR ''f''"
    "CHR ''<'' \<notin> set (b # rest)"
proof -
  from assms obtain a b rest where n: "name = a # b # rest" "ascii_lower a = CHR ''<''"
    "ascii_lower b = CHR ''f''" "map ascii_lower rest = ''ootnote''"
    by (auto simp: map_eq_Cons_conv)
  have "CHR ''<'' \<notin> set (map ascii_lower (b # rest))" using n(3,4) by simp
  then have "CHR ''<'' \<notin> set (b # rest)" by (simp only: lt_in_lowered not_False_eq_True)
  with n that show ?thesis by simp
qed

lemma close_name_shape:
  assumes "map ascii_lower name = ''</footnote>''"
  obtains b rest where "name = CHR ''<'' # b # rest" "ascii_lower b = CHR ''/''"
    "CHR ''<'' \<notin> set (b # rest)"
proof -
  from assms obtain a b rest where n: "name = a # b # rest" "ascii_lower a = CHR ''<''"
    "ascii_lower b = CHR ''/''" "map ascii_lower rest = ''footnote>''"
    by (auto simp: map_eq_Cons_conv)
  have "CHR ''<'' \<notin> set (map ascii_lower (b # rest))" using n(3,4) by simp
  then have "CHR ''<'' \<notin> set (b # rest)" by (simp only: lt_in_lowered not_False_eq_True)
  with n that show ?thesis by simp
qed
lemma dropWhile_upto:
  "x \<notin> set xs \<Longrightarrow> dropWhile (\<lambda>c. c \<noteq> x) (xs @ x # ys) = x # ys"
  by (induction xs) auto

lemma takeWhile_upto:
  "x \<notin> set xs \<Longrightarrow> takeWhile (\<lambda>c. c \<noteq> x) (xs @ x # ys) = xs"
  by (induction xs) auto

lemma match_open_tag:
  assumes "map ascii_lower name = ''<footnote''" and "js_whitespace w"
    and "CHR ''>'' \<notin> set attrs"
  shows "match_open (name @ w # attrs @ CHR ''>'' # s) = Some s"
proof -
  have "strip_prefix_ci ''<footnote'' (name @ w # attrs @ CHR ''>'' # s) =
      Some (w # attrs @ CHR ''>'' # s)"
    using assms(1) by (intro strip_prefix_ci_name) (simp only: ascii_lower_literals)
  then show ?thesis
    using assms(2,3) by (simp add: match_open_def dropWhile_upto)
qed

lemma match_open_not_ws:
  assumes "map ascii_lower name = ''<footnote''" and "r = [] \<or> \<not> js_whitespace (hd r)"
  shows "match_open (name @ r) = None"
proof -
  have "strip_prefix_ci ''<footnote'' (name @ r) = Some r"
    using assms(1) by (intro strip_prefix_ci_name) (simp only: ascii_lower_literals)
  then show ?thesis
    using assms(2) by (cases r) (simp_all add: match_open_def)
qed

lemma strip_open_of_close_name:
  assumes "map ascii_lower name = ''</footnote>''"
  shows "strip_prefix_ci ''<footnote'' (name @ s) = None"
proof -
  from assms obtain b rest where "name = CHR ''<'' # b # rest" "ascii_lower b = CHR ''/''"
    by (rule close_name_shape)
  then show ?thesis by (simp add: ascii_lower_literals)
qed

lemma match_at_close_name:
  assumes "map ascii_lower name = ''</footnote>''"
  shows "match_open (name @ s) = None" and "match_self_closing (name @ s) = None"
    and "match_close (name @ s) = Some s"
proof -
  show "match_open (name @ s) = None" and "match_self_closing (name @ s) = None"
    using strip_open_of_close_name [OF assms, of s]
    by (simp_all add: match_open_def match_self_closing_def)
  show "match_close (name @ s) = Some s"
    unfolding match_close_def using assms
    by (intro strip_prefix_ci_name) (simp only: ascii_lower_literals)
qed

lemma match_close_open_name:
  assumes "map ascii_lower name = ''<footnote''"
  shows "match_close (name @ s) = None"
proof -
  from assms obtain b rest where "name = CHR ''<'' # b # rest" "ascii_lower b = CHR ''f''"
    by (rule open_name_shape)
  then show ?thesis by (simp add: match_close_def ascii_lower_literals)
qed

lemma match_self_closing_tag:
  assumes "map ascii_lower name = ''<footnote''" and "CHR ''>'' \<notin> set attrs"
  shows "match_self_closing (name @ attrs @ CHR ''/'' # CHR ''>'' # s) = Some s"
proof -
  have strip: "strip_prefix_ci ''<footnote'' (name @ attrs @ CHR ''/'' # CHR ''>'' # s) =
      Some (attrs @ CHR ''/'' # CHR ''>'' # s)"
    using assms(1) by (intro strip_prefix_ci_name) (simp only: ascii_lower_literals)
  have notin: "CHR ''>'' \<notin> set (attrs @ ''/'')" using assms(2) by simp
  have split: "attrs @ CHR ''/'' # CHR ''>'' # s = (attrs @ ''/'') @ CHR ''>'' # s" by simp
  have "dropWhile (\<lambda>c. c \<noteq> CHR ''>'') (attrs @ CHR ''/'' # CHR ''>'' # s) = CHR ''>'' # s"
    unfolding split using notin by (rule dropWhile_upto)
  moreover have "takeWhile (\<lambda>c. c \<noteq> CHR ''>'') (attrs @ CHR ''/'' # CHR ''>'' # s) = attrs @ ''/''"
    unfolding split using notin by (rule takeWhile_upto)
  ultimately show ?thesis
    using strip by (simp add: match_self_closing_def)
qed

lemma match_self_closing_open_tag:
  assumes "map ascii_lower name = ''<footnote''" and "CHR ''>'' \<notin> set (w # attrs)"
  shows "match_self_closing (name @ w # attrs @ CHR ''>'' # s) =
           (if last (w # attrs) = CHR ''/'' then Some s else None)"
proof -
  have strip: "strip_prefix_ci ''<footnote'' (name @ w # attrs @ CHR ''>'' # s) =
      Some (w # attrs @ CHR ''>'' # s)"
    using assms(1) by (intro strip_prefix_ci_name) (simp only: ascii_lower_literals)
  have split: "w # attrs @ CHR ''>'' # s = (w # attrs) @ CHR ''>'' # s" by simp
  have d: "dropWhile (\<lambda>c. c \<noteq> CHR ''>'') (w # attrs @ CHR ''>'' # s) = CHR ''>'' # s"
    unfolding split using assms(2) by (rule dropWhile_upto)
  have t: "takeWhile (\<lambda>c. c \<noteq> CHR ''>'') (w # attrs @ CHR ''>'' # s) = w # attrs"
    unfolding split using assms(2) by (rule takeWhile_upto)
  show ?thesis
    unfolding match_self_closing_def strip option.case Let_def d t by simp
qed

text \<open>One step of each replacement: text without \<^verbatim>\<open><\<close> is kept, a match is dropped.\<close>

lemma match_none_other_head:
  assumes "c \<noteq> CHR ''<''"
  shows "match_open (c # cs) = None" and "match_close (c # cs) = None"
    and "match_self_closing (c # cs) = None"
  using assms by (simp_all add: match_none_no_lt)

lemma replace_open_plain:
  "CHR ''<'' \<notin> set t \<Longrightarrow> replace_open (t @ s) = t @ replace_open s"
proof (induction t)
  case Nil
  show ?case by simp
next
  case (Cons c t)
  then have "c \<noteq> CHR ''<''" by auto
  then have "match_open (c # t @ s) = None" by (rule match_none_other_head)
  with Cons show ?case by simp
qed

lemma replace_close_plain:
  "CHR ''<'' \<notin> set t \<Longrightarrow> replace_close (t @ s) = t @ replace_close s"
proof (induction t)
  case Nil
  show ?case by simp
next
  case (Cons c t)
  then have "c \<noteq> CHR ''<''" by auto
  then have "match_close (c # t @ s) = None" by (rule match_none_other_head)
  with Cons show ?case by simp
qed

lemma replace_self_closing_plain:
  "CHR ''<'' \<notin> set t \<Longrightarrow> replace_self_closing (t @ s) = t @ replace_self_closing s"
proof (induction t)
  case Nil
  show ?case by simp
next
  case (Cons c t)
  then have "c \<noteq> CHR ''<''" by auto
  then have "match_self_closing (c # t @ s) = None" by (rule match_none_other_head)
  with Cons show ?case by simp
qed

lemma replace_open_match:
  assumes "match_open x = Some rest"
  shows "replace_open x = replace_open rest"
  using assms by (cases x) (simp_all add: match_none_no_lt)

lemma replace_close_match:
  assumes "match_close x = Some rest"
  shows "replace_close x = replace_close rest"
  using assms by (cases x) (simp_all add: match_none_no_lt)

lemma replace_self_closing_match:
  assumes "match_self_closing x = Some rest"
  shows "replace_self_closing x = replace_self_closing rest"
  using assms by (cases x) (simp_all add: match_none_no_lt)

lemma replace_open_kept:
  assumes "match_open (c # t @ s) = None" and "CHR ''<'' \<notin> set t"
  shows "replace_open (c # t @ s) = c # t @ replace_open s"
  using assms by (simp add: replace_open_plain)

lemma replace_close_kept:
  assumes "match_close (c # t @ s) = None" and "CHR ''<'' \<notin> set t"
  shows "replace_close (c # t @ s) = c # t @ replace_close s"
  using assms by (simp add: replace_close_plain)

lemma replace_self_closing_kept:
  assumes "match_self_closing (c # t @ s) = None" and "CHR ''<'' \<notin> set t"
  shows "replace_self_closing (c # t @ s) = c # t @ replace_self_closing s"
  using assms by (simp add: replace_self_closing_plain)
text \<open>Each replacement either drops a whole segment or keeps it as it is.\<close>

lemma replace_open_segment:
  assumes "well_formed seg"
  shows "replace_open (render seg @ s) =
           (if dropped_by_open seg then [] else render seg) @ replace_open s"
proof (cases seg)
  case (Plain t)
  with assms show ?thesis by (simp add: replace_open_plain)
next
  case (Open_tag name w attrs)
  with assms have "match_open (name @ w # attrs @ CHR ''>'' # s) = Some s"
    by (simp add: match_open_tag)
  then have "replace_open (name @ w # attrs @ CHR ''>'' # s) = replace_open s"
    by (rule replace_open_match)
  with Open_tag show ?thesis by simp
next
  case (Close_tag name)
  with assms have n: "map ascii_lower name = ''</footnote>''" by simp
  then obtain b rest where shape: "name = CHR ''<'' # b # rest" "CHR ''<'' \<notin> set (b # rest)"
    by (rule close_name_shape)
  have "match_open (name @ s) = None" using n by (rule match_at_close_name)
  then have "match_open (CHR ''<'' # (b # rest) @ s) = None" using shape(1) by simp
  then have "replace_open (CHR ''<'' # (b # rest) @ s) = CHR ''<'' # (b # rest) @ replace_open s"
    using shape(2) by (rule replace_open_kept)
  with Close_tag shape(1) show ?thesis by simp
next
  case (Self_closing_tag name attrs)
  with assms have n: "map ascii_lower name = ''<footnote''"
    and a: "CHR ''<'' \<notin> set attrs" "CHR ''>'' \<notin> set attrs" by simp_all
  from n obtain b rest where shape: "name = CHR ''<'' # b # rest" "CHR ''<'' \<notin> set (b # rest)"
    by (rule open_name_shape)
  show ?thesis
  proof (cases "dropped_by_open seg")
    case True
    with Self_closing_tag obtain w a' where attrs: "attrs = w # a'" and w: "js_whitespace w"
      by (cases attrs) auto
    have "CHR ''>'' \<notin> set (a' @ ''/'')" using a(2) attrs by simp
    with n w have "match_open (name @ w # (a' @ ''/'') @ CHR ''>'' # s) = Some s"
      by (rule match_open_tag)
    then have "replace_open (name @ w # (a' @ ''/'') @ CHR ''>'' # s) = replace_open s"
      by (rule replace_open_match)
    with True Self_closing_tag attrs show ?thesis by simp
  next
    case False
    with Self_closing_tag have "attrs = [] \<or> \<not> js_whitespace (hd attrs)"
      by (cases attrs) auto
    then have "attrs @ ''/>'' @ s = [] \<or> \<not> js_whitespace (hd (attrs @ ''/>'' @ s))"
      by (cases attrs) (simp_all add: js_whitespace_def)
    with n have "match_open (name @ attrs @ ''/>'' @ s) = None" by (rule match_open_not_ws)
    then have "match_open (CHR ''<'' # ((b # rest) @ attrs @ ''/>'') @ s) = None"
      using shape(1) by simp
    moreover have "CHR ''<'' \<notin> set ((b # rest) @ attrs @ ''/>'')" using shape(2) a(1) by simp
    ultimately have "replace_open (CHR ''<'' # ((b # rest) @ attrs @ ''/>'') @ s) =
        CHR ''<'' # ((b # rest) @ attrs @ ''/>'') @ replace_open s"
      by (rule replace_open_kept)
    with False Self_closing_tag shape(1) show ?thesis by simp
  qed
qed

lemma replace_close_segment:
  assumes "well_formed seg"
  shows "replace_close (render seg @ s) =
           (if dropped_by_close seg then [] else render seg) @ replace_close s"
proof (cases seg)
  case (Plain t)
  with assms show ?thesis by (simp add: replace_close_plain)
next
  case (Open_tag name w attrs)
  with assms have n: "map ascii_lower name = ''<footnote''"
    and a: "CHR ''<'' \<notin> set attrs" "js_whitespace w" by simp_all
  from n obtain b rest where shape: "name = CHR ''<'' # b # rest" "CHR ''<'' \<notin> set (b # rest)"
    by (rule open_name_shape)
  have w: "w \<noteq> CHR ''<''" using a(2) by (auto simp: js_whitespace_def)
  have "match_close (name @ w # attrs @ ''>'' @ s) = None" using n by (rule match_close_open_name)
  then have "match_close (CHR ''<'' # ((b # rest) @ w # attrs @ ''>'') @ s) = None"
    using shape(1) by simp
  moreover have "CHR ''<'' \<notin> set ((b # rest) @ w # attrs @ ''>'')" using shape(2) a(1) w by simp
  ultimately have "replace_close (CHR ''<'' # ((b # rest) @ w # attrs @ ''>'') @ s) =
      CHR ''<'' # ((b # rest) @ w # attrs @ ''>'') @ replace_close s"
    by (rule replace_close_kept)
  with Open_tag shape(1) show ?thesis by simp
next
  case (Close_tag name)
  with assms have "match_close (name @ s) = Some s" by (simp add: match_at_close_name)
  then have "replace_close (name @ s) = replace_close s" by (rule replace_close_match)
  with Close_tag show ?thesis by simp
next
  case (Self_closing_tag name attrs)
  with assms have n: "map ascii_lower name = ''<footnote''"
    and a: "CHR ''<'' \<notin> set attrs" by simp_all
  from n obtain b rest where shape: "name = CHR ''<'' # b # rest" "CHR ''<'' \<notin> set (b # rest)"
    by (rule open_name_shape)
  have "match_close (name @ attrs @ ''/>'' @ s) = None" using n by (rule match_close_open_name)
  then have "match_close (CHR ''<'' # ((b # rest) @ attrs @ ''/>'') @ s) = None"
    using shape(1) by simp
  moreover have "CHR ''<'' \<notin> set ((b # rest) @ attrs @ ''/>'')" using shape(2) a(1) by simp
  ultimately have "replace_close (CHR ''<'' # ((b # rest) @ attrs @ ''/>'') @ s) =
      CHR ''<'' # ((b # rest) @ attrs @ ''/>'') @ replace_close s"
    by (rule replace_close_kept)
  with Self_closing_tag shape(1) show ?thesis by simp
qed

lemma replace_self_closing_segment:
  assumes "well_formed seg"
  shows "replace_self_closing (render seg @ s) =
           (if dropped_by_self_closing seg then [] else render seg) @ replace_self_closing s"
proof (cases seg)
  case (Plain t)
  with assms show ?thesis by (simp add: replace_self_closing_plain)
next
  case (Open_tag name w attrs)
  with assms have n: "map ascii_lower name = ''<footnote''"
    and a: "CHR ''<'' \<notin> set attrs" "CHR ''>'' \<notin> set attrs" "js_whitespace w" by simp_all
  from n obtain b rest where shape: "name = CHR ''<'' # b # rest" "CHR ''<'' \<notin> set (b # rest)"
    by (rule open_name_shape)
  have w: "w \<noteq> CHR ''<''" "w \<noteq> CHR ''>''" using a(3) by (auto simp: js_whitespace_def)
  have m: "match_self_closing (name @ w # attrs @ CHR ''>'' # s) =
      (if last (w # attrs) = CHR ''/'' then Some s else None)"
    using n a(2) w(2) by (intro match_self_closing_open_tag) simp_all
  show ?thesis
  proof (cases "last (w # attrs) = CHR ''/''")
    case True
    with m have "match_self_closing (name @ w # attrs @ CHR ''>'' # s) = Some s" by simp
    then have "replace_self_closing (name @ w # attrs @ CHR ''>'' # s) = replace_self_closing s"
      by (rule replace_self_closing_match)
    with True Open_tag show ?thesis by simp
  next
    case False
    with m have "match_self_closing (name @ w # attrs @ CHR ''>'' # s) = None" by simp
    then have "match_self_closing (CHR ''<'' # ((b # rest) @ w # attrs @ ''>'') @ s) = None"
      using shape(1) by simp
    moreover have "CHR ''<'' \<notin> set ((b # rest) @ w # attrs @ ''>'')"
      using shape(2) a(1) w(1) by simp
    ultimately have "replace_self_closing (CHR ''<'' # ((b # rest) @ w # attrs @ ''>'') @ s) =
        CHR ''<'' # ((b # rest) @ w # attrs @ ''>'') @ replace_self_closing s"
      by (rule replace_self_closing_kept)
    with False Open_tag shape(1) show ?thesis by simp
  qed
next
  case (Close_tag name)
  with assms have n: "map ascii_lower name = ''</footnote>''" by simp
  then obtain b rest where shape: "name = CHR ''<'' # b # rest" "CHR ''<'' \<notin> set (b # rest)"
    by (rule close_name_shape)
  have "match_self_closing (name @ s) = None" using n by (rule match_at_close_name)
  then have "match_self_closing (CHR ''<'' # (b # rest) @ s) = None" using shape(1) by simp
  then have "replace_self_closing (CHR ''<'' # (b # rest) @ s) =
      CHR ''<'' # (b # rest) @ replace_self_closing s"
    using shape(2) by (rule replace_self_closing_kept)
  with Close_tag shape(1) show ?thesis by simp
next
  case (Self_closing_tag name attrs)
  with assms have "match_self_closing (name @ attrs @ CHR ''/'' # CHR ''>'' # s) = Some s"
    by (simp add: match_self_closing_tag)
  then have "replace_self_closing (name @ attrs @ CHR ''/'' # CHR ''>'' # s) =
      replace_self_closing s"
    by (rule replace_self_closing_match)
  with Self_closing_tag show ?thesis by simp
qed
lemma replace_open_all:
  assumes "\<forall>seg \<in> set segs. well_formed seg"
  shows "replace_open (render_all segs @ s) =
           render_all (filter (\<lambda>seg. \<not> dropped_by_open seg) segs) @ replace_open s"
  using assms
proof (induction segs)
  case Nil
  show ?case by (simp add: render_all_def)
next
  case (Cons seg segs)
  then have wf: "well_formed seg" and IH: "replace_open (render_all segs @ s) =
      render_all (filter (\<lambda>seg. \<not> dropped_by_open seg) segs) @ replace_open s"
    by simp_all
  have "replace_open (render_all (seg # segs) @ s) = replace_open (render seg @ render_all segs @ s)"
    by (simp add: render_all_def)
  also have "\<dots> = (if dropped_by_open seg then [] else render seg) @ replace_open (render_all segs @ s)"
    using wf by (rule replace_open_segment)
  finally show ?case using IH by (simp add: render_all_def)
qed

lemma replace_close_all:
  assumes "\<forall>seg \<in> set segs. well_formed seg"
  shows "replace_close (render_all segs @ s) =
           render_all (filter (\<lambda>seg. \<not> dropped_by_close seg) segs) @ replace_close s"
  using assms
proof (induction segs)
  case Nil
  show ?case by (simp add: render_all_def)
next
  case (Cons seg segs)
  then have wf: "well_formed seg" and IH: "replace_close (render_all segs @ s) =
      render_all (filter (\<lambda>seg. \<not> dropped_by_close seg) segs) @ replace_close s"
    by simp_all
  have "replace_close (render_all (seg # segs) @ s) = replace_close (render seg @ render_all segs @ s)"
    by (simp add: render_all_def)
  also have "\<dots> = (if dropped_by_close seg then [] else render seg) @ replace_close (render_all segs @ s)"
    using wf by (rule replace_close_segment)
  finally show ?case using IH by (simp add: render_all_def)
qed

lemma replace_self_closing_all:
  assumes "\<forall>seg \<in> set segs. well_formed seg"
  shows "replace_self_closing (render_all segs @ s) =
           render_all (filter (\<lambda>seg. \<not> dropped_by_self_closing seg) segs) @ replace_self_closing s"
  using assms
proof (induction segs)
  case Nil
  show ?case by (simp add: render_all_def)
next
  case (Cons seg segs)
  then have wf: "well_formed seg" and IH: "replace_self_closing (render_all segs @ s) =
      render_all (filter (\<lambda>seg. \<not> dropped_by_self_closing seg) segs) @ replace_self_closing s"
    by simp_all
  have "replace_self_closing (render_all (seg # segs) @ s) =
      replace_self_closing (render seg @ render_all segs @ s)"
    by (simp add: render_all_def)
  also have "\<dots> = (if dropped_by_self_closing seg then [] else render seg) @
      replace_self_closing (render_all segs @ s)"
    using wf by (rule replace_self_closing_segment)
  finally show ?case using IH by (simp add: render_all_def)
qed

lemma every_tag_dropped:
  "render_all (filter (\<lambda>seg. \<not> dropped_by_self_closing seg)
       (filter (\<lambda>seg. \<not> dropped_by_close seg)
          (filter (\<lambda>seg. \<not> dropped_by_open seg) segs))) =
     concat (map plain_text segs)"
proof (induction segs)
  case Nil
  show ?case by (simp add: render_all_def)
next
  case (Cons seg segs)
  then show ?case
    by (cases seg) (auto simp: render_all_def split: list.splits)
qed

lemma stripFootnoteTags_well_formed:
  assumes "\<forall>seg \<in> set segs. well_formed seg"
  shows "stripFootnoteTags (Some (render_all segs)) = concat (map plain_text segs)"
proof -
  let ?a = "filter (\<lambda>seg. \<not> dropped_by_open seg) segs"
  let ?b = "filter (\<lambda>seg. \<not> dropped_by_close seg) ?a"
  have wa: "\<forall>seg \<in> set ?a. well_formed seg" and wb: "\<forall>seg \<in> set ?b. well_formed seg"
    using assms by simp_all
  have A: "replace_open (render_all segs) = render_all ?a"
    using replace_open_all [OF assms, of "[]"] by simp
  have B: "replace_close (render_all ?a) = render_all ?b"
    using replace_close_all [OF wa, of "[]"] by (simp del: filter_filter)
  have C: "replace_self_closing (render_all ?b) =
      render_all (filter (\<lambda>seg. \<not> dropped_by_self_closing seg) ?b)"
    using replace_self_closing_all [OF wb, of "[]"] by (simp del: filter_filter)
  show ?thesis
    unfolding stripFootnoteTags_def option.case A B C by (rule every_tag_dropped)
qed

lemma plain_output_no_lt:
  assumes "\<forall>seg \<in> set segs. well_formed seg"
  shows "CHR ''<'' \<notin> set (concat (map plain_text segs))"
  using assms
proof (induction segs)
  case Nil
  show ?case by simp
next
  case (Cons seg segs)
  then show ?case by (cases seg) auto
qed

lemma stripFootnoteTags_no_lt:
  assumes "CHR ''<'' \<notin> set t"
  shows "stripFootnoteTags (Some t) = t"
  using replace_open_plain [OF assms, of "[]"] replace_close_plain [OF assms, of "[]"]
    replace_self_closing_plain [OF assms, of "[]"]
  by (simp add: stripFootnoteTags_def)

lemma no_match_without_lt:
  assumes "CHR ''<'' \<notin> set t"
  shows "match_open (drop i t) = None" and "match_close (drop i t) = None"
    and "match_self_closing (drop i t) = None"
proof -
  have "drop i t = [] \<or> hd (drop i t) \<noteq> CHR ''<''"
  proof (cases "drop i t")
    case Nil
    then show ?thesis by simp
  next
    case (Cons c cs)
    then have "c \<in> set (drop i t)" by simp
    then have "c \<in> set t" by (rule in_set_dropD)
    with assms Cons show ?thesis by auto
  qed
  then show "match_open (drop i t) = None" and "match_close (drop i t) = None"
    and "match_self_closing (drop i t) = None"
    by (rule match_none_no_lt)+
qed

text \<open>
  C9 (as amended). \<^verbatim>\<open>stripFootnoteTags\<close> returns the empty string for \<^verbatim>\<open>null\<close> and
  \<^verbatim>\<open>undefined\<close>. On markup in which every tag is whole (plain text without \<^verbatim>\<open><\<close>
  between opening tags with attributes, closing tags and self-closing tags, whose
  attribute text holds neither \<^verbatim>\<open><\<close> nor \<^verbatim>\<open>>\<close>) it returns the plain text; there
  none of the three patterns matches at any position of the output, and stripping the
  output again changes nothing.
\<close>

theorem stripFootnoteTags_whole_tags:
  "stripFootnoteTags None = [] \<and>
   ((\<forall>seg \<in> set segs. well_formed seg) \<longrightarrow>
      stripFootnoteTags (Some (render_all segs)) = concat (map plain_text segs) \<and>
      (\<forall>i. match_open (drop i (stripFootnoteTags (Some (render_all segs)))) = None \<and>
           match_close (drop i (stripFootnoteTags (Some (render_all segs)))) = None \<and>
           match_self_closing (drop i (stripFootnoteTags (Some (render_all segs)))) = None) \<and>
      stripFootnoteTags (Some (stripFootnoteTags (Some (render_all segs)))) =
        stripFootnoteTags (Some (render_all segs)))"
proof (intro conjI impI)
  show "stripFootnoteTags None = []" by (simp add: stripFootnoteTags_def)
next
  assume wf: "\<forall>seg \<in> set segs. well_formed seg"
  then show out: "stripFootnoteTags (Some (render_all segs)) = concat (map plain_text segs)"
    by (rule stripFootnoteTags_well_formed)
  have no_lt: "CHR ''<'' \<notin> set (stripFootnoteTags (Some (render_all segs)))"
    unfolding out using wf by (rule plain_output_no_lt)
  show "\<forall>i. match_open (drop i (stripFootnoteTags (Some (render_all segs)))) = None \<and>
           match_close (drop i (stripFootnoteTags (Some (render_all segs)))) = None \<and>
           match_self_closing (drop i (stripFootnoteTags (Some (render_all segs)))) = None"
    using no_match_without_lt [OF no_lt] by blast
  show "stripFootnoteTags (Some (stripFootnoteTags (Some (render_all segs)))) =
        stripFootnoteTags (Some (render_all segs))"
    using no_lt by (rule stripFootnoteTags_no_lt)
qed

theorem stripFootnoteTags_whole_tags_witness:
  "well_formed (Plain ''In the name'') \<and>
   well_formed (Open_tag ''<footnote'' CHR '' '' ''id=1155 number=166'') \<and>
   well_formed (Close_tag ''</FOOTNOTE>'') \<and>
   well_formed (Self_closing_tag ''<Footnote'' '' id=7 '') \<and>
   render_all [Plain ''In the name'', Open_tag ''<footnote'' CHR '' '' ''id=1155 number=166'',
               Plain ''note'', Close_tag ''</FOOTNOTE>'', Self_closing_tag ''<Footnote'' '' id=7 '',
               Self_closing_tag ''<footnote'' [], Plain '' of God'']
     = ''In the name<footnote id=1155 number=166>note</FOOTNOTE><Footnote id=7 /><footnote/> of God'' \<and>
   stripFootnoteTags
     (Some ''In the name<footnote id=1155 number=166>note</FOOTNOTE><Footnote id=7 /><footnote/> of God'')
     = ''In the namenote of God''"
proof -
  have wf: "\<forall>seg \<in> set [Plain ''In the name'', Open_tag ''<footnote'' CHR '' '' ''id=1155 number=166'',
               Plain ''note'', Close_tag ''</FOOTNOTE>'', Self_closing_tag ''<Footnote'' '' id=7 '',
               Self_closing_tag ''<footnote'' [], Plain '' of God'']. well_formed seg"
    by (simp add: ascii_lower_def js_whitespace_def)
  have r: "render_all [Plain ''In the name'', Open_tag ''<footnote'' CHR '' '' ''id=1155 number=166'',
               Plain ''note'', Close_tag ''</FOOTNOTE>'', Self_closing_tag ''<Footnote'' '' id=7 '',
               Self_closing_tag ''<footnote'' [], Plain '' of God'']
     = ''In the name<footnote id=1155 number=166>note</FOOTNOTE><Footnote id=7 /><footnote/> of God''"
    by (simp add: render_all_def)
  from stripFootnoteTags_whole_tags [of "[Plain ''In the name'', Open_tag ''<footnote'' CHR '' '' ''id=1155 number=166'',
               Plain ''note'', Close_tag ''</FOOTNOTE>'', Self_closing_tag ''<Footnote'' '' id=7 '',
               Self_closing_tag ''<footnote'' [], Plain '' of God'']"] wf
  have "stripFootnoteTags (Some (render_all [Plain ''In the name'', Open_tag ''<footnote'' CHR '' '' ''id=1155 number=166'',
               Plain ''note'', Close_tag ''</FOOTNOTE>'', Self_closing_tag ''<Footnote'' '' id=7 '',
               Self_closing_tag ''<footnote'' [], Plain '' of God''])) = ''In the namenote of God''"
    by simp
  with wf r show ?thesis by simp
qed

text \<open>
  On other input a tag can survive and a second pass can change the result: each
  pattern is replaced in one left-to-right pass, in a fixed order, so a tag that only
  comes into being when a later pass removes the text splitting it is not removed. In
  \<^verbatim>\<open><foot</footnote>note x>\<close> the second pass removes \<^verbatim>\<open></footnote>\<close> and leaves
  \<^verbatim>\<open><footnote x>\<close>, which the first pattern matches and a second call removes.
\<close>

theorem stripFootnoteTags_idempotent_counterexample:
  "stripFootnoteTags (Some ''<foot</footnote>note x>'') = ''<footnote x>'' \<and>
   match_open ''<footnote x>'' = Some [] \<and>
   stripFootnoteTags (Some (stripFootnoteTags (Some ''<foot</footnote>note x>''))) = [] \<and>
   stripFootnoteTags (Some ''</foot<footnote/>note>'') = ''</footnote>'' \<and>
   stripFootnoteTags (Some ''<foot<footnote/>note/>'') = ''<footnote/>''"
  by code_simp

end
